theory Spec2Isabelle
  imports Complex_Main "HOL-Library.Multiset"
begin

text \<open>
  The ingestion and retrieval pipeline of the legal-text assistant: fixed-size chunking
  (\<open>chunkText\<close>), change detection (\<open>ChangeDetector\<close>), the write path for new and
  updated pages, the legal chunker (\<open>LegalContentProcessor\<close>) and similarity search
  (\<open>findSimilarResources\<close>), each translated from its TypeScript source, followed by the
  properties proved of them. Console output is not modelled.
\<close>

section \<open>JavaScript strings\<close>

text \<open>
  A JavaScript string is a sequence of UTF-16 code units, and \<open>length\<close>, \<open>slice\<close>,
  \<open>substring\<close>, \<open>trim\<close> and regular expressions without the \<open>u\<close> flag all work on code
  units. A code unit is modelled by its number; every JavaScript string is such a list, so
  a theorem about all lists covers all strings. \<open>ascii\<close> turns a literal into its code
  units.
\<close>

type_synonym jschar = nat
type_synonym jsstring = "jschar list"

definition ascii :: "string \<Rightarrow> jsstring" where
  "ascii s = map of_char s"

text \<open>
  The characters that \<open>String.prototype.trim\<close> strips and that \<open>\s\<close> matches: ECMAScript's
  WhiteSpace and LineTerminator code points.
\<close>

definition is_space :: "jschar \<Rightarrow> bool" where
  "is_space c \<longleftrightarrow>
     (9 \<le> c \<and> c \<le> 13) \<or> c = 32 \<or> c = 160 \<or> c = 5760 \<or> (8192 \<le> c \<and> c \<le> 8202) \<or>
     c = 8232 \<or> c = 8233 \<or> c = 8239 \<or> c = 8287 \<or> c = 12288 \<or> c = 65279"

definition js_trim :: "jsstring \<Rightarrow> jsstring" where
  "js_trim s = rev (dropWhile is_space (rev (dropWhile is_space s)))"

text \<open>
  \<open>s.slice(start, end)\<close> on integers: a negative index counts from the end, both indices
  are clamped to the string, and an empty range gives the empty string.
\<close>

definition js_index :: "nat \<Rightarrow> int \<Rightarrow> nat" where
  "js_index len i = (if i < 0 then nat (max (int len + i) 0) else min (nat i) len)"

definition js_slice :: "'a list \<Rightarrow> int \<Rightarrow> int \<Rightarrow> 'a list" where
  "js_slice s start end =
     (let from = js_index (length s) start; to = js_index (length s) end
      in take (to - from) (drop from s))"

section \<open>Fixed-size chunking (src/lib/embeddings.ts)\<close>

text \<open>
  \<^verbatim>\<open>
  export function chunkText(text, chunkSize = 1000, chunkOverlap = 200): string[] {
    const chunks = []; let start = 0;
    while (start < text.length) {
      const end = Math.min(start + chunkSize, text.length);
      const chunk = text.slice(start, end);
      chunks.push(chunk.trim());
      if (end === text.length) break;
      start = end - chunkOverlap;
    }
    return chunks;
  }
  \<close>
  The sizes are integers. The loop need not end (take \<open>chunkOverlap \<ge> chunkSize\<close> on a
  long text), so it is a partial function: \<open>None\<close> is the run that never returns.
\<close>

partial_function (option) chunkText_loop ::
  "jsstring \<Rightarrow> int \<Rightarrow> int \<Rightarrow> int \<Rightarrow> jsstring list \<Rightarrow> jsstring list option" where
  "chunkText_loop text chunkSize chunkOverlap start chunks =
     (if start < int (length text) then
        (if min (start + chunkSize) (int (length text)) = int (length text)
         then Some (chunks @ [js_trim (js_slice text start (min (start + chunkSize) (int (length text))))])
         else chunkText_loop text chunkSize chunkOverlap
                (min (start + chunkSize) (int (length text)) - chunkOverlap)
                (chunks @ [js_trim (js_slice text start (min (start + chunkSize) (int (length text))))]))
      else Some chunks)"

declare chunkText_loop.simps [code]

definition chunkText :: "jsstring \<Rightarrow> int \<Rightarrow> int \<Rightarrow> jsstring list option" where
  "chunkText text chunkSize chunkOverlap = chunkText_loop text chunkSize chunkOverlap 0 []"

text \<open>
  The same loop, recording the window \<open>(start, end)\<close> of each iteration instead of the
  trimmed slice: the chunks before trimming.
\<close>

partial_function (option) chunkWindows_loop ::
  "nat \<Rightarrow> int \<Rightarrow> int \<Rightarrow> int \<Rightarrow> (int \<times> int) list \<Rightarrow> (int \<times> int) list option" where
  "chunkWindows_loop len chunkSize chunkOverlap start ws =
     (if start < int len then
        (if min (start + chunkSize) (int len) = int len
         then Some (ws @ [(start, min (start + chunkSize) (int len))])
         else chunkWindows_loop len chunkSize chunkOverlap
                (min (start + chunkSize) (int len) - chunkOverlap)
                (ws @ [(start, min (start + chunkSize) (int len))]))
      else Some ws)"

declare chunkWindows_loop.simps [code]

definition chunkWindows :: "jsstring \<Rightarrow> int \<Rightarrow> int \<Rightarrow> (int \<times> int) list option" where
  "chunkWindows text chunkSize chunkOverlap =
     chunkWindows_loop (length text) chunkSize chunkOverlap 0 []"


section \<open>The store and the external services\<close>

text \<open>
  Modelled from the spec: the \<open>resources\<close> table, whose schema
  (\<open>src/lib/db/schema/resources.ts\<close>) is not among the sources. It stores the spec's
  Document: the source URL, the title, the normalized content, the content hash and the
  time of the last fetch. The columns have the names the code reads and writes
  (\<open>lastScraped\<close>, \<open>updatedAt\<close>); \<open>createResource\<close> inserts a row with \<open>content\<close>
  only, so every other column but the id is nullable. Times are numbers.

  The \<open>embeddings\<close> table is \<open>src/lib/db/schema/embeddings.ts\<close>. Its \<open>embedding\<close>
  column holds the vector as JSON text, written by \<open>JSON.stringify\<close> and read back by
  \<open>JSON.parse\<close>, and is modelled by the vector itself. Table order is insertion order.
\<close>

record resource =
  res_id :: jsstring
  res_content :: jsstring
  res_sourceUrl :: "jsstring option"
  res_title :: "jsstring option"
  res_contentHash :: "jsstring option"
  res_lastScraped :: "nat option"
  res_updatedAt :: nat

record embedding_row =
  emb_id :: jsstring
  emb_resourceId :: jsstring
  emb_content :: jsstring
  emb_embedding :: "real list"

text \<open>
  Every call that leaves the process (a database statement, a request to the embedding
  service) is written to a journal, in the order the code awaits them. What the outside
  world answers to the \<open>n\<close>-th call is the environment's choice: whether the database
  statement throws, what the embedding service returns (\<open>None\<close>: it throws), which id
  \<open>nanoid()\<close> generates and what \<open>new Date()\<close> reads.
\<close>

datatype call =
    SelectResourceByUrl jsstring
  | InsertResource jsstring
  | DeleteEmbeddings jsstring
  | UpdateResource jsstring
  | Embed jsstring
  | InsertEmbedding jsstring jsstring
  | SelectEmbeddings

datatype error = StoreError | EmbeddingServiceError | NonTermination

record world =
  resources_tbl :: "resource list"
  embeddings_tbl :: "embedding_row list"
  journal :: "call list"

record env =
  db_fails :: "nat \<Rightarrow> bool"
  embed_svc :: "nat \<Rightarrow> jsstring \<Rightarrow> real list option"
  nanoid :: "nat \<Rightarrow> jsstring"
  clock :: "nat \<Rightarrow> nat"

definition tick :: "world \<Rightarrow> nat" where
  "tick w = length (journal w)"

definition attempt :: "call \<Rightarrow> world \<Rightarrow> world" where
  "attempt c w = w\<lparr>journal := journal w @ [c]\<rparr>"

text \<open>An awaited loop \<open>for (const x of xs) await f(x)\<close>: the first exception ends it.\<close>

fun forEach :: "('a \<Rightarrow> world \<Rightarrow> (error + unit) \<times> world) \<Rightarrow> 'a list \<Rightarrow> world \<Rightarrow> (error + unit) \<times> world" where
  "forEach f [] w = (Inr (), w)"
| "forEach f (x # xs) w =
     (case f x w of
        (Inl e, w') \<Rightarrow> (Inl e, w')
      | (Inr u, w') \<Rightarrow> forEach f xs w')"

section \<open>Change detection (src/lib/change-detector.ts)\<close>

record scraped_content =
  sc_url :: jsstring
  sc_title :: jsstring
  sc_content :: jsstring
  sc_contentHash :: jsstring
  sc_links :: "jsstring list"
  sc_sectionNumber :: "jsstring option"
  sc_chapterNumber :: "jsstring option"
  sc_lastModified :: "jsstring option"

datatype change_type = New | Updated | Unchanged

text \<open>
  \<open>ChangeDetectionResult\<close>. An optional field that is absent is \<open>None\<close>; \<open>oldHash\<close> is
  also \<open>None\<close> when it is copied from a stored row whose hash is null.
\<close>

record change_detection_result =
  cd_url :: jsstring
  cd_changeType :: change_type
  cd_oldHash :: "jsstring option"
  cd_newHash :: jsstring
  cd_resourceId :: "jsstring option"

text \<open>
  \<open>db.select().from(resources).where(eq(resources.sourceUrl, url)).limit(1)\<close>: at most one
  row with that URL (the first in table order), or an exception.
\<close>

definition select_resource_by_url :: "env \<Rightarrow> jsstring \<Rightarrow> world \<Rightarrow> (error + resource list) \<times> world" where
  "select_resource_by_url env url w =
     (if db_fails env (tick w) then (Inl StoreError, attempt (SelectResourceByUrl url) w)
      else (Inr (take 1 (filter (\<lambda>r. res_sourceUrl r = Some url) (resources_tbl w))),
            attempt (SelectResourceByUrl url) w))"

text \<open>
  \<open>detectSingleChange\<close>: the whole body is inside \<open>try\<close>, and the \<open>catch\<close> returns a
  \<open>new\<close> record, so the function returns a record on every path. The \<open>console.error\<close> of the
  \<open>catch\<close> is not modelled.
\<close>

definition detectSingleChange :: "env \<Rightarrow> scraped_content \<Rightarrow> world \<Rightarrow> change_detection_result \<times> world" where
  "detectSingleChange env content w =
     (case select_resource_by_url env (sc_url content) w of
        (Inr existingResource, w') \<Rightarrow>
          (if length existingResource = 0 then
             (\<lparr>cd_url = sc_url content, cd_changeType = New, cd_oldHash = None,
               cd_newHash = sc_contentHash content, cd_resourceId = None\<rparr>, w')
           else if res_contentHash (existingResource ! 0) = Some (sc_contentHash content) then
             (\<lparr>cd_url = sc_url content, cd_changeType = Unchanged,
               cd_oldHash = res_contentHash (existingResource ! 0),
               cd_newHash = sc_contentHash content,
               cd_resourceId = Some (res_id (existingResource ! 0))\<rparr>, w')
           else
             (\<lparr>cd_url = sc_url content, cd_changeType = Updated,
               cd_oldHash = res_contentHash (existingResource ! 0),
               cd_newHash = sc_contentHash content,
               cd_resourceId = Some (res_id (existingResource ! 0))\<rparr>, w'))
      | (Inl e, w') \<Rightarrow>
          (\<lparr>cd_url = sc_url content, cd_changeType = New, cd_oldHash = None,
            cd_newHash = sc_contentHash content, cd_resourceId = None\<rparr>, w'))"

fun detectChanges_loop ::
  "env \<Rightarrow> scraped_content list \<Rightarrow> change_detection_result list \<Rightarrow> world \<Rightarrow>
   change_detection_result list \<times> world" where
  "detectChanges_loop env [] results w = (results, w)"
| "detectChanges_loop env (content # rest) results w =
     (case detectSingleChange env content w of
        (result, w') \<Rightarrow> detectChanges_loop env rest (results @ [result]) w')"

definition detectChanges :: "env \<Rightarrow> scraped_content list \<Rightarrow> world \<Rightarrow> change_detection_result list \<times> world" where
  "detectChanges env scrapedContents w = detectChanges_loop env scrapedContents [] w"

definition cleanupOldEmbeddings :: "env \<Rightarrow> jsstring \<Rightarrow> world \<Rightarrow> (error + unit) \<times> world" where
  "cleanupOldEmbeddings env resourceId w =
     (if db_fails env (tick w) then (Inl StoreError, attempt (DeleteEmbeddings resourceId) w)
      else (Inr (),
            attempt (DeleteEmbeddings resourceId)
              (w\<lparr>embeddings_tbl := filter (\<lambda>e. emb_resourceId e \<noteq> resourceId) (embeddings_tbl w)\<rparr>)))"

section \<open>Processed content and the write path (src/lib/change-detector.ts, src/lib/embeddings.ts)\<close>

text \<open>
  \<open>ProcessedLegalContent\<close>, with the fields of its \<open>metadata\<close> object alongside the
  others. The two \<open>new Date()\<close> of \<open>updateResource\<close> read the same instant, and a
  row inserted by \<open>handleNewContent\<close> has the time of the insert in both time columns.
\<close>

datatype content_type = Chapter | Section

record processed_legal_content =
  pc_title :: jsstring
  pc_content :: jsstring
  pc_chunks :: "jsstring list"
  pc_sourceUrl :: jsstring
  pc_sectionNumber :: "jsstring option"
  pc_chapterNumber :: "jsstring option"
  pc_contentType :: content_type
  pc_lastModified :: "jsstring option"

definition updateResource ::
  "env \<Rightarrow> jsstring \<Rightarrow> processed_legal_content \<Rightarrow> jsstring \<Rightarrow> world \<Rightarrow> (error + unit) \<times> world" where
  "updateResource env resourceId processedContent contentHash w =
     (if db_fails env (tick w) then (Inl StoreError, attempt (UpdateResource resourceId) w)
      else (Inr (),
            attempt (UpdateResource resourceId)
              (w\<lparr>resources_tbl :=
                  map (\<lambda>r. if res_id r = resourceId
                          then r\<lparr>res_content := pc_content processedContent,
                                 res_title := Some (pc_title processedContent),
                                 res_contentHash := Some contentHash,
                                 res_lastScraped := Some (clock env (tick w)),
                                 res_updatedAt := clock env (tick w)\<rparr>
                          else r)
                    (resources_tbl w)\<rparr>)))"

definition createEmbedding :: "env \<Rightarrow> jsstring \<Rightarrow> world \<Rightarrow> (error + real list) \<times> world" where
  "createEmbedding env text w =
     (case embed_svc env (tick w) text of
        None \<Rightarrow> (Inl EmbeddingServiceError, attempt (Embed text) w)
      | Some embedding \<Rightarrow> (Inr embedding, attempt (Embed text) w))"

definition insert_embedding :: "env \<Rightarrow> jsstring \<Rightarrow> jsstring \<Rightarrow> real list \<Rightarrow> world \<Rightarrow> (error + unit) \<times> world" where
  "insert_embedding env resourceId chunk embedding w =
     (if db_fails env (tick w) then (Inl StoreError, attempt (InsertEmbedding resourceId chunk) w)
      else (Inr (),
            attempt (InsertEmbedding resourceId chunk)
              (w\<lparr>embeddings_tbl := embeddings_tbl w @
                   [\<lparr>emb_id = nanoid env (tick w), emb_resourceId = resourceId,
                     emb_content = chunk, emb_embedding = embedding\<rparr>]\<rparr>)))"

definition embed_and_store :: "env \<Rightarrow> jsstring \<Rightarrow> jsstring \<Rightarrow> world \<Rightarrow> (error + unit) \<times> world" where
  "embed_and_store env resourceId chunk w =
     (case createEmbedding env chunk w of
        (Inl e, w') \<Rightarrow> (Inl e, w')
      | (Inr embedding, w') \<Rightarrow> insert_embedding env resourceId chunk embedding w')"

text \<open>
  \<open>createEmbeddingsForResource\<close> calls \<open>chunkText(content)\<close> with the default sizes and
  embeds and stores each of its chunks. A \<open>chunkText\<close> that did not return would hang the
  caller; the model gives that run the error \<open>NonTermination\<close>.
\<close>

definition createEmbeddingsForResource :: "env \<Rightarrow> jsstring \<Rightarrow> jsstring \<Rightarrow> world \<Rightarrow> (error + unit) \<times> world" where
  "createEmbeddingsForResource env resourceId content w =
     (case chunkText content 1000 200 of
        None \<Rightarrow> (Inl NonTermination, w)
      | Some chunks \<Rightarrow> forEach (embed_and_store env resourceId) chunks w)"

definition insert_resource ::
  "env \<Rightarrow> processed_legal_content \<Rightarrow> jsstring \<Rightarrow> world \<Rightarrow> (error + resource) \<times> world" where
  "insert_resource env processedContent contentHash w =
     (if db_fails env (tick w)
      then (Inl StoreError, attempt (InsertResource (pc_sourceUrl processedContent)) w)
      else (Inr \<lparr>res_id = nanoid env (tick w), res_content = pc_content processedContent,
                 res_sourceUrl = Some (pc_sourceUrl processedContent),
                 res_title = Some (pc_title processedContent),
                 res_contentHash = Some contentHash,
                 res_lastScraped = Some (clock env (tick w)),
                 res_updatedAt = clock env (tick w)\<rparr>,
            attempt (InsertResource (pc_sourceUrl processedContent))
              (w\<lparr>resources_tbl := resources_tbl w @
                   [\<lparr>res_id = nanoid env (tick w), res_content = pc_content processedContent,
                     res_sourceUrl = Some (pc_sourceUrl processedContent),
                     res_title = Some (pc_title processedContent),
                     res_contentHash = Some contentHash,
                     res_lastScraped = Some (clock env (tick w)),
                     res_updatedAt = clock env (tick w)\<rparr>]\<rparr>)))"

definition handleNewContent ::
  "env \<Rightarrow> processed_legal_content \<Rightarrow> jsstring \<Rightarrow> world \<Rightarrow> (error + unit) \<times> world" where
  "handleNewContent env processedContent contentHash w =
     (case insert_resource env processedContent contentHash w of
        (Inl e, w') \<Rightarrow> (Inl e, w')
      | (Inr newResource, w') \<Rightarrow>
          forEach (createEmbeddingsForResource env (res_id newResource))
            (pc_chunks processedContent) w')"

definition handleUpdatedContent ::
  "env \<Rightarrow> jsstring \<Rightarrow> processed_legal_content \<Rightarrow> jsstring \<Rightarrow> world \<Rightarrow> (error + unit) \<times> world" where
  "handleUpdatedContent env resourceId processedContent contentHash w =
     (case cleanupOldEmbeddings env resourceId w of
        (Inl e, w') \<Rightarrow> (Inl e, w')
      | (Inr u, w') \<Rightarrow>
          (case updateResource env resourceId processedContent contentHash w' of
             (Inl e, w'') \<Rightarrow> (Inl e, w'')
           | (Inr u', w'') \<Rightarrow>
               forEach (createEmbeddingsForResource env resourceId)
                 (pc_chunks processedContent) w''))"

subsection \<open>What a successful run stores\<close>

text \<open>
  The texts that reach the embedding service for a list of chunks: each chunk goes through
  \<open>chunkText\<close> with the default sizes.
\<close>

definition texts_to_embed :: "jsstring list \<Rightarrow> jsstring list" where
  "texts_to_embed chunks =
     concat (map (\<lambda>chunk. case chunkText chunk 1000 200 of None \<Rightarrow> [] | Some cs \<Rightarrow> cs) chunks)"

text \<open>
  Embedding and storing a list of texts from call \<open>t\<close> on takes two calls per text: the
  request to the embedding service and the insert. \<open>services_ok\<close> says that none of them
  throws, \<open>new_rows\<close> lists the rows then inserted and \<open>embed_calls\<close> the calls made.
\<close>

fun services_ok :: "env \<Rightarrow> nat \<Rightarrow> jsstring list \<Rightarrow> bool" where
  "services_ok env t [] = True"
| "services_ok env t (c # cs) =
     (embed_svc env t c \<noteq> None \<and> \<not> db_fails env (Suc t) \<and> services_ok env (Suc (Suc t)) cs)"

fun new_rows :: "env \<Rightarrow> jsstring \<Rightarrow> nat \<Rightarrow> jsstring list \<Rightarrow> embedding_row list" where
  "new_rows env resourceId t [] = []"
| "new_rows env resourceId t (c # cs) =
     \<lparr>emb_id = nanoid env (Suc t), emb_resourceId = resourceId, emb_content = c,
      emb_embedding = (case embed_svc env t c of None \<Rightarrow> [] | Some v \<Rightarrow> v)\<rparr>
     # new_rows env resourceId (Suc (Suc t)) cs"

definition embed_calls :: "jsstring \<Rightarrow> jsstring list \<Rightarrow> call list" where
  "embed_calls resourceId texts = concat (map (\<lambda>c. [Embed c, InsertEmbedding resourceId c]) texts)"

section \<open>Legal chunking (LegalContentProcessor, src/unnamed/part_002)\<close>

subsection \<open>Splitting before numbered paragraphs\<close>

definition is_digit :: "jschar \<Rightarrow> bool" where
  "is_digit c \<longleftrightarrow> 48 \<le> c \<and> c \<le> 57"

text \<open>
  Whether \<open>\(\d+\)\<close> matches at the start of \<open>s\<close>: an opening parenthesis (40), one or
  more digits, a closing parenthesis (41). The digits are taken greedily; giving one back
  would leave a digit where the closing parenthesis must be, so backtracking changes nothing.
\<close>

definition marker_at :: "jsstring \<Rightarrow> bool" where
  "marker_at s =
     (case s of
        [] \<Rightarrow> False
      | c # rest \<Rightarrow>
          c = 40 \<and> takeWhile is_digit rest \<noteq> [] \<and>
          (case dropWhile is_digit rest of [] \<Rightarrow> False | d # ds \<Rightarrow> d = 41))"

definition cons_first :: "'a \<Rightarrow> 'a list list \<Rightarrow> 'a list list" where
  "cons_first c pieces = (case pieces of [] \<Rightarrow> [[c]] | p # ps \<Rightarrow> (c # p) # ps)"

text \<open>
  \<open>content.split(/(?=\(\d+\))/)\<close>. The separator is a lookahead and matches the empty
  string, so \<open>split\<close> cuts before every position where a marker starts, except position 0
  (an empty match at the start of the current piece is skipped), and the pieces keep all
  the characters. The empty string gives one empty piece.
\<close>

fun split_paragraphs :: "jsstring \<Rightarrow> jsstring list" where
  "split_paragraphs [] = [[]]"
| "split_paragraphs (c # cs) =
     (if marker_at cs then [c] # split_paragraphs cs
      else cons_first c (split_paragraphs cs))"

subsection \<open>Sentences\<close>

definition is_terminator :: "jschar \<Rightarrow> bool" where
  "is_terminator c \<longleftrightarrow> c = 46 \<or> c = 33 \<or> c = 63"

text \<open>
  \<open>[.!?]+\s+\<close> at the start of \<open>s\<close>: a run of \<open>.\<close>, \<open>!\<close>, \<open>?\<close> and a run of whitespace,
  both greedy and neither empty; the result is what follows the match.
\<close>

definition separator_rest :: "jsstring \<Rightarrow> jsstring option" where
  "separator_rest s =
     (case s of
        [] \<Rightarrow> None
      | c # cs \<Rightarrow>
          if is_terminator c then
            (case dropWhile is_terminator cs of
               [] \<Rightarrow> None
             | d # ds \<Rightarrow> if is_space d then Some (dropWhile is_space ds) else None)
          else None)"

lemma separator_rest_shorter: "separator_rest s = Some rest \<Longrightarrow> length rest < length s"
proof -
  have drop_le: "length (dropWhile P xs) \<le> length xs" for P :: "jschar \<Rightarrow> bool" and xs
    by (induction xs) auto
  assume "separator_rest s = Some rest"
  then obtain c cs d ds where s: "s = c # cs" and d: "dropWhile is_terminator cs = d # ds"
    and r: "rest = dropWhile is_space ds"
    by (auto simp: separator_rest_def split: list.splits if_splits)
  have "length rest \<le> length ds" using r drop_le by simp
  moreover have "length (d # ds) \<le> length cs" using drop_le [of is_terminator cs] d by simp
  ultimately show ?thesis using s by simp
qed

text \<open>
  \<open>processedText.split(/[.!?]+\s+/)\<close>: the pieces between the matches of the separator,
  found from left to right; a match at the very start or the very end leaves an empty piece.
\<close>

function split_sentences :: "jsstring \<Rightarrow> jsstring list" where
  "split_sentences [] = [[]]"
| "split_sentences (c # cs) =
     (case separator_rest (c # cs) of
        Some rest \<Rightarrow> [] # split_sentences rest
      | None \<Rightarrow> cons_first c (split_sentences cs))"
  by pat_completeness auto
termination
  by (relation "measure length") (auto dest: separator_rest_shorter)

subsection \<open>Protecting abbreviations\<close>

text \<open>
  The regular expressions built from strings are sequences of literal characters and of
  \<open>.\<close>, which matches every code unit that is not a line terminator.
\<close>

datatype atom = Lit jschar | AnyChar

definition is_line_terminator :: "jschar \<Rightarrow> bool" where
  "is_line_terminator c \<longleftrightarrow> c = 10 \<or> c = 13 \<or> c = 8232 \<or> c = 8233"

fun matches_atom :: "atom \<Rightarrow> jschar \<Rightarrow> bool" where
  "matches_atom (Lit a) c = (a = c)"
| "matches_atom AnyChar c = (\<not> is_line_terminator c)"

text \<open>
  \<open>new RegExp(source, 'g')\<close> for a source made of letters, digits, underscores, dots and
  escaped dots, which is all the chunker builds: \<open>\.\<close> (92, 46) is a literal dot and a bare
  dot is the wildcard.
\<close>

fun regex_of_source :: "jsstring \<Rightarrow> atom list" where
  "regex_of_source [] = []"
| "regex_of_source [c] = [if c = 46 then AnyChar else Lit c]"
| "regex_of_source (c # d # cs) =
     (if c = 92 then Lit d # regex_of_source cs
      else (if c = 46 then AnyChar else Lit c) # regex_of_source (d # cs))"

text \<open>\<open>abbrev.replace('.', '\\.')\<close>: a string pattern replaces its first occurrence only.\<close>

fun escape_first_dot :: "jsstring \<Rightarrow> jsstring" where
  "escape_first_dot [] = []"
| "escape_first_dot (c # cs) = (if c = 46 then 92 # 46 # cs else c # escape_first_dot cs)"

fun match_prefix :: "atom list \<Rightarrow> jsstring \<Rightarrow> jsstring option" where
  "match_prefix [] s = Some s"
| "match_prefix (a # as) [] = None"
| "match_prefix (a # as) (c # cs) = (if matches_atom a c then match_prefix as cs else None)"

lemma match_prefix_length: "match_prefix pat s = Some rest \<Longrightarrow> length s = length pat + length rest"
  by (induction pat s rule: match_prefix.induct) (auto split: if_splits)

text \<open>
  \<open>text.replace(regex, replacement)\<close> with the \<open>g\<close> flag and a replacement without \<open>$\<close>:
  every match, found from left to right and not overlapping, becomes the replacement. The
  empty pattern matches before every character and at the end.
\<close>

function replace_all :: "atom list \<Rightarrow> jsstring \<Rightarrow> jsstring \<Rightarrow> jsstring" where
  "replace_all [] replacement s = replacement @ concat (map (\<lambda>c. c # replacement) s)"
| "replace_all (a # as) replacement [] = []"
| "replace_all (a # as) replacement (c # cs) =
     (case match_prefix (a # as) (c # cs) of
        Some rest \<Rightarrow> replacement @ replace_all (a # as) replacement rest
      | None \<Rightarrow> c # replace_all (a # as) replacement cs)"
  by pat_completeness auto
termination
  by (relation "measure (\<lambda>(pat, replacement, s). length s)")
    (auto dest!: match_prefix_length split: if_splits)

definition legalAbbrevs :: "jsstring list" where
  "legalAbbrevs =
     [ascii ''U.S.'', ascii ''v.'', ascii ''e.g.'', ascii ''i.e.'', ascii ''etc.'',
      ascii ''Inc.'', ascii ''Corp.'', ascii ''LLC'']"

fun show_nat :: "nat \<Rightarrow> jsstring" where
  "show_nat n = (if n < 10 then [48 + n] else show_nat (n div 10) @ [48 + n mod 10])"

definition placeholder :: "nat \<Rightarrow> jsstring" where
  "placeholder index = ascii ''__ABBREV_'' @ show_nat index @ ascii ''__''"

fun protect_abbrevs :: "nat \<Rightarrow> jsstring list \<Rightarrow> jsstring \<Rightarrow> jsstring" where
  "protect_abbrevs index [] processedText = processedText"
| "protect_abbrevs index (abbrev # rest) processedText =
     protect_abbrevs (Suc index) rest
       (replace_all (regex_of_source (escape_first_dot abbrev)) (placeholder index) processedText)"

text \<open>
  The entries of \<open>placeholders\<close> come in insertion order, the order of \<open>legalAbbrevs\<close>.
\<close>

fun restore_abbrevs :: "nat \<Rightarrow> jsstring list \<Rightarrow> jsstring \<Rightarrow> jsstring" where
  "restore_abbrevs index [] restored = restored"
| "restore_abbrevs index (abbrev # rest) restored =
     restore_abbrevs (Suc index) rest
       (replace_all (regex_of_source (placeholder index)) abbrev restored)"

definition splitIntoSentences :: "jsstring \<Rightarrow> jsstring list" where
  "splitIntoSentences text =
     filter (\<lambda>sentence. length sentence > 20)
       (map (\<lambda>sentence. js_trim (restore_abbrevs 0 legalAbbrevs sentence))
          (split_sentences (protect_abbrevs 0 legalAbbrevs text)))"

subsection \<open>Packing sentences\<close>

text \<open>The loop of \<open>createSemanticChunks\<close> over \<open>chunks\<close> and \<open>currentChunk\<close>.\<close>

fun semantic_loop ::
  "jsstring \<Rightarrow> nat \<Rightarrow> jsstring list \<Rightarrow> jsstring list \<Rightarrow> jsstring \<Rightarrow> jsstring list \<times> jsstring" where
  "semantic_loop title maxChunkSize [] chunks currentChunk = (chunks, currentChunk)"
| "semantic_loop title maxChunkSize (sentence # rest) chunks currentChunk =
     (if length currentChunk + length sentence + 2 > maxChunkSize \<and>
         length currentChunk > length title + 10
      then semantic_loop title maxChunkSize rest (chunks @ [js_trim currentChunk])
             (title @ [10, 10] @ sentence @ [46, 32])
      else semantic_loop title maxChunkSize rest chunks (currentChunk @ sentence @ [46, 32]))"

definition createSemanticChunks :: "jsstring list \<Rightarrow> jsstring \<Rightarrow> nat \<Rightarrow> jsstring list" where
  "createSemanticChunks sentences title maxChunkSize =
     (case semantic_loop title maxChunkSize sentences [] (title @ [10, 10]) of
        (chunks, currentChunk) \<Rightarrow>
          if length currentChunk > length title + 10 then chunks @ [js_trim currentChunk]
          else chunks)"

subsection \<open>The chunker\<close>

text \<open>The \<open>forEach\<close> over \<open>paragraphSections\<close>, with its index.\<close>

fun paragraph_chunks :: "jsstring \<Rightarrow> nat \<Rightarrow> jsstring list \<Rightarrow> jsstring list \<Rightarrow> jsstring list" where
  "paragraph_chunks title index [] chunks = chunks"
| "paragraph_chunks title index (section # rest) chunks =
     paragraph_chunks title (Suc index) rest
       (if js_trim section \<noteq> [] \<and>
           length (if index = 0 then title @ [10, 10] @ js_trim section
                   else title @ [32, 45, 32] @ js_trim section) > 100
        then chunks @ [if index = 0 then title @ [10, 10] @ js_trim section
                       else title @ [32, 45, 32] @ js_trim section]
        else chunks)"

text \<open>
  The chunks of the two strategies, before the fallback to the full content: one chunk per
  numbered paragraph when \<open>split\<close> gives more than one piece, packed sentences otherwise.
\<close>

definition strategy_chunks :: "jsstring \<Rightarrow> jsstring \<Rightarrow> jsstring list" where
  "strategy_chunks content title =
     (if length (split_paragraphs content) > 1
      then paragraph_chunks title 0 (split_paragraphs content) []
      else createSemanticChunks (splitIntoSentences content) title 1200)"

definition chunkLegalText :: "jsstring \<Rightarrow> jsstring \<Rightarrow> jsstring list" where
  "chunkLegalText content title =
     (if length (strategy_chunks content title) = 0 \<and> length content > 50
      then strategy_chunks content title @ [take 2000 (title @ [10, 10] @ content)]
      else strategy_chunks content title)"

subsection \<open>Cleaning and processing a page\<close>

lemma length_dropWhile_le: "length (dropWhile P xs) \<le> length xs"
  by (induction xs) auto

text \<open>\<open>.replace(/\s+/g, ' ')\<close>: every run of whitespace becomes one space.\<close>

function collapse_whitespace :: "jsstring \<Rightarrow> jsstring" where
  "collapse_whitespace [] = []"
| "collapse_whitespace (c # cs) =
     (if is_space c then 32 # collapse_whitespace (dropWhile is_space cs)
      else c # collapse_whitespace cs)"
  by pat_completeness auto
termination
  by (relation "measure length") (auto simp: length_dropWhile_le less_Suc_eq_le)

text \<open>
  \<open>.replace(/\s+([.,;:)])/g, '$1')\<close>: a run of whitespace right before one of
  \<open>. , ; : )\<close> is removed.
\<close>

definition is_closing_punct :: "jschar \<Rightarrow> bool" where
  "is_closing_punct c \<longleftrightarrow> c = 46 \<or> c = 44 \<or> c = 59 \<or> c = 58 \<or> c = 41"

function strip_space_before_punct :: "jsstring \<Rightarrow> jsstring" where
  "strip_space_before_punct [] = []"
| "strip_space_before_punct (c # cs) =
     (if is_space c then
        (case dropWhile is_space cs of
           [] \<Rightarrow> c # strip_space_before_punct cs
         | p # rest \<Rightarrow>
             if is_closing_punct p then p # strip_space_before_punct rest
             else c # strip_space_before_punct cs)
      else c # strip_space_before_punct cs)"
  by pat_completeness auto
termination
proof (relation "measure length")
  fix c :: jschar and cs p rest
  assume "dropWhile is_space cs = p # rest"
  then have "length (p # rest) \<le> length cs"
    using length_dropWhile_le [of is_space cs] by simp
  then show "(rest, c # cs) \<in> measure length" by simp
qed auto

text \<open>
  \<open>.replace(/([([:])\s+/g, '$1')\<close>: a run of whitespace right after \<open>(\<close>, \<open>[\<close> or \<open>:\<close>
  is removed.
\<close>

definition is_opening_punct :: "jschar \<Rightarrow> bool" where
  "is_opening_punct c \<longleftrightarrow> c = 40 \<or> c = 91 \<or> c = 58"

function strip_space_after_punct :: "jsstring \<Rightarrow> jsstring" where
  "strip_space_after_punct [] = []"
| "strip_space_after_punct (c # cs) =
     (if is_opening_punct c \<and> cs \<noteq> [] \<and> is_space (hd cs)
      then c # strip_space_after_punct (dropWhile is_space cs)
      else c # strip_space_after_punct cs)"
  by pat_completeness auto
termination
  by (relation "measure length") (auto simp: length_dropWhile_le less_Suc_eq_le)

text \<open>
  The next replacement is written in the source with the two code units \<open>U+0E22 U+0E07\<close>
  where a section sign was meant: the pair, with any whitespace after it, becomes the pair
  and one space.
\<close>

function space_after_section_sign :: "jsstring \<Rightarrow> jsstring" where
  "space_after_section_sign [] = []"
| "space_after_section_sign [c] = [c]"
| "space_after_section_sign (c # d # cs) =
     (if c = 3618 \<and> d = 3591
      then 3618 # 3591 # 32 # space_after_section_sign (dropWhile is_space cs)
      else c # space_after_section_sign (d # cs))"
  by pat_completeness auto
termination
  by (relation "measure length") (auto simp: length_dropWhile_le less_Suc_eq_le le_SucI)

text \<open>\<open>.replace(/\.{3,}/g, '...')\<close>: three or more periods become three.\<close>

function shorten_ellipsis :: "jsstring \<Rightarrow> jsstring" where
  "shorten_ellipsis [] = []"
| "shorten_ellipsis (c # cs) =
     (if c = 46 \<and> 2 \<le> length (takeWhile (\<lambda>d. d = 46) cs)
      then 46 # 46 # 46 # shorten_ellipsis (dropWhile (\<lambda>d. d = 46) cs)
      else c # shorten_ellipsis cs)"
  by pat_completeness auto
termination
  by (relation "measure length") (auto simp: length_dropWhile_le less_Suc_eq_le)

definition cleanLegalText :: "jsstring \<Rightarrow> jsstring" where
  "cleanLegalText text =
     js_trim (shorten_ellipsis (space_after_section_sign (strip_space_after_punct
       (strip_space_before_punct (collapse_whitespace text)))))"

text \<open>\<open>s.includes(pattern)\<close>.\<close>

fun js_includes :: "jsstring \<Rightarrow> jsstring \<Rightarrow> bool" where
  "js_includes [] pattern = (pattern = [])"
| "js_includes (c # cs) pattern =
     (take (length pattern) (c # cs) = pattern \<or> js_includes cs pattern)"

definition processLegalText :: "scraped_content \<Rightarrow> processed_legal_content" where
  "processLegalText scrapedContent =
     \<lparr>pc_title = sc_title scrapedContent,
      pc_content = cleanLegalText (sc_content scrapedContent),
      pc_chunks = chunkLegalText (cleanLegalText (sc_content scrapedContent)) (sc_title scrapedContent),
      pc_sourceUrl = sc_url scrapedContent,
      pc_sectionNumber = sc_sectionNumber scrapedContent,
      pc_chapterNumber = sc_chapterNumber scrapedContent,
      pc_contentType =
        (if js_includes (sc_url scrapedContent) (ascii ''/chapter-'') then Chapter else Section),
      pc_lastModified = sc_lastModified scrapedContent\<rparr>"

definition processBatch :: "scraped_content list \<Rightarrow> processed_legal_content list" where
  "processBatch scrapedContents =
     map processLegalText (filter (\<lambda>content. length (sc_content content) > 50) scrapedContents)"

text \<open>
  Whether a numbered paragraph marker \<open>(<digits>)\<close> starts anywhere in the text.
\<close>

fun has_marker :: "jsstring \<Rightarrow> bool" where
  "has_marker [] = False"
| "has_marker (c # cs) = (marker_at (c # cs) \<or> has_marker cs)"

section \<open>Similarity search (findSimilarResources, src/unnamed/part_000)\<close>










section \<open>Concrete data\<close>

text \<open>
  An environment in which every call succeeds, one in which exactly the \<open>k\<close>-th call to the
  database throws, and a small store: one resource with two stored chunks, and one chunk of
  another resource.
\<close>

definition env_ok :: env where
  "env_ok = \<lparr>db_fails = (\<lambda>n. False), embed_svc = (\<lambda>n text. Some [1, 0]),
             nanoid = (\<lambda>n. ascii ''id'' @ show_nat n), clock = (\<lambda>n. n)\<rparr>"

definition env_failing_at :: "nat \<Rightarrow> env" where
  "env_failing_at k = env_ok\<lparr>db_fails := (\<lambda>n. n = k)\<rparr>"

definition stored_resource :: resource where
  "stored_resource =
     \<lparr>res_id = ascii ''r1'', res_content = ascii ''old text'',
      res_sourceUrl = Some (ascii ''u1''), res_title = Some (ascii ''Title''),
      res_contentHash = Some (ascii ''h1''), res_lastScraped = Some 0, res_updatedAt = 0\<rparr>"

definition stored_world :: world where
  "stored_world =
     \<lparr>resources_tbl = [stored_resource],
      embeddings_tbl =
        [\<lparr>emb_id = ascii ''e1'', emb_resourceId = ascii ''r1'', emb_content = ascii ''old one'',
          emb_embedding = [1, 0]\<rparr>,
         \<lparr>emb_id = ascii ''e2'', emb_resourceId = ascii ''r2'', emb_content = ascii ''other'',
          emb_embedding = [0, 1]\<rparr>,
         \<lparr>emb_id = ascii ''e3'', emb_resourceId = ascii ''r1'', emb_content = ascii ''old two'',
          emb_embedding = [1, 1]\<rparr>],
      journal = []\<rparr>"

definition page :: "string \<Rightarrow> string \<Rightarrow> scraped_content" where
  "page url hash =
     \<lparr>sc_url = ascii url, sc_title = ascii ''Title'', sc_content = ascii ''text'',
      sc_contentHash = ascii hash, sc_links = [], sc_sectionNumber = None,
      sc_chapterNumber = None, sc_lastModified = None\<rparr>"

definition updated_content :: processed_legal_content where
  "updated_content =
     \<lparr>pc_title = ascii ''Title'', pc_content = ascii ''new text'',
      pc_chunks = [ascii ''new one'', ascii ''new two''], pc_sourceUrl = ascii ''u1'',
      pc_sectionNumber = None, pc_chapterNumber = None, pc_contentType = Section,
      pc_lastModified = None\<rparr>"

definition new_content :: processed_legal_content where
  "new_content = updated_content\<lparr>pc_sourceUrl := ascii ''u2''\<rparr>"

text \<open>
  A page of 1100 letters \<open>a\<close> under the title \<open>T\<close>, with the chunks the legal chunker
  gives it.
\<close>

definition long_content :: processed_legal_content where
  "long_content =
     \<lparr>pc_title = ascii ''T'', pc_content = replicate 1100 97,
      pc_chunks = chunkLegalText (replicate 1100 97) (ascii ''T''), pc_sourceUrl = ascii ''u2'',
      pc_sectionNumber = None, pc_chapterNumber = None, pc_contentType = Section,
      pc_lastModified = None\<rparr>"

section \<open>Properties of fixed-size chunking\<close>

lemma chunkText_loop_terminates:
  assumes "chunkOverlap < chunkSize"
  shows "\<exists>cs. chunkText_loop text chunkSize chunkOverlap start chunks = Some cs"
  using assms
proof (induction "nat (int (length text) - start)" arbitrary: start chunks rule: less_induct)
  case less
  show ?case
  proof (cases "start < int (length text)")
    case False
    then show ?thesis by (subst chunkText_loop.simps) simp
  next
    case True
    show ?thesis
    proof (cases "min (start + chunkSize) (int (length text)) = int (length text)")
      case True
      with \<open>start < int (length text)\<close> show ?thesis by (subst chunkText_loop.simps) simp
    next
      case False
      then have e: "min (start + chunkSize) (int (length text)) = start + chunkSize" by linarith
      have "nat (int (length text) - (start + chunkSize - chunkOverlap)) < nat (int (length text) - start)"
        using True less.prems by linarith
      from less.hyps [OF this less.prems]
      obtain cs where "chunkText_loop text chunkSize chunkOverlap (start + chunkSize - chunkOverlap)
          (chunks @ [js_trim (js_slice text start (start + chunkSize))]) = Some cs"
        by blast
      with True False e show ?thesis by (subst chunkText_loop.simps) simp
    qed
  qed
qed

lemma chunkText_loop_windows:
  assumes "chunkWindows_loop (length text) chunkSize chunkOverlap start ws = Some ws'"
    and "chunkOverlap < chunkSize"
  shows "chunkText_loop text chunkSize chunkOverlap start (map (\<lambda>(s, e). js_trim (js_slice text s e)) ws)
         = Some (map (\<lambda>(s, e). js_trim (js_slice text s e)) ws')"
  using assms
proof (induction "nat (int (length text) - start)" arbitrary: start ws rule: less_induct)
  case less
  show ?case
  proof (cases "start < int (length text)")
    case False
    with less.prems(1) show ?thesis
      by (subst chunkText_loop.simps) (simp add: chunkWindows_loop.simps)
  next
    case True
    show ?thesis
    proof (cases "min (start + chunkSize) (int (length text)) = int (length text)")
      case True
      with \<open>start < int (length text)\<close> less.prems(1) show ?thesis
        by (subst chunkText_loop.simps) (auto simp add: chunkWindows_loop.simps)
    next
      case False
      then have e: "min (start + chunkSize) (int (length text)) = start + chunkSize" by linarith
      have m: "nat (int (length text) - (start + chunkSize - chunkOverlap)) < nat (int (length text) - start)"
        using True less.prems by linarith
      have "chunkWindows_loop (length text) chunkSize chunkOverlap (start + chunkSize - chunkOverlap)
              (ws @ [(start, start + chunkSize)]) = Some ws'"
        using less.prems(1) True False e by (subst (asm) chunkWindows_loop.simps) simp
      from less.hyps [OF m this less.prems(2)] True False e show ?thesis
        by (subst chunkText_loop.simps) simp
    qed
  qed
qed

lemma chunkWindows_loop_default:
  "\<exists>new. chunkWindows_loop len 1000 200 start ws = Some (ws @ new) \<and>
     (start < int len \<longrightarrow> new \<noteq> [] \<and> fst (hd new) = start \<and> snd (last new) = int len) \<and>
     (\<forall>(s, e) \<in> set new. start \<le> s \<and> s < e \<and> e \<le> int len \<and> e \<le> s + 1000) \<and>
     (\<forall>i. start \<le> i \<and> i < int len \<longrightarrow> (\<exists>(s, e) \<in> set new. s \<le> i \<and> i < e)) \<and>
     (\<forall>k. Suc k < length new \<longrightarrow>
        fst (new ! Suc k) = fst (new ! k) + 800 \<and> fst (new ! Suc k) + 200 = snd (new ! k) \<and>
        snd (new ! k) < snd (new ! Suc k))"
proof (induction "nat (int len - start)" arbitrary: start ws rule: less_induct)
  case less
  show ?case
  proof (cases "start < int len")
    case False
    then have "chunkWindows_loop len 1000 200 start ws = Some (ws @ [])"
      by (subst chunkWindows_loop.simps) simp
    with False show ?thesis by (intro exI [of _ "[]"]) simp
  next
    case True
    show ?thesis
    proof (cases "min (start + 1000) (int len) = int len")
      case e: True
      with True have "chunkWindows_loop len 1000 200 start ws = Some (ws @ [(start, int len)])"
        by (subst chunkWindows_loop.simps) simp
      with True e show ?thesis by (intro exI [of _ "[(start, int len)]"]) auto
    next
      case False
      then have e: "min (start + 1000) (int len) = start + 1000" and lt: "start + 1000 < int len"
        by linarith+
      have m: "nat (int len - (start + 800)) < nat (int len - start)"
        using True by linarith
      from less.hyps [OF m, of "ws @ [(start, start + 1000)]"]
      obtain new where
        run: "chunkWindows_loop len 1000 200 (start + 800) (ws @ [(start, start + 1000)])
              = Some ((ws @ [(start, start + 1000)]) @ new)"
        and ne: "new \<noteq> []" and h: "fst (hd new) = start + 800" and l: "snd (last new) = int len"
        and rng: "\<forall>(s, e) \<in> set new. start + 800 \<le> s \<and> s < e \<and> e \<le> int len \<and> e \<le> s + 1000"
        and cov: "\<forall>i. start + 800 \<le> i \<and> i < int len \<longrightarrow> (\<exists>(s, e) \<in> set new. s \<le> i \<and> i < e)"
        and ovl: "\<forall>k. Suc k < length new \<longrightarrow>
          fst (new ! Suc k) = fst (new ! k) + 800 \<and> fst (new ! Suc k) + 200 = snd (new ! k) \<and>
          snd (new ! k) < snd (new ! Suc k)"
        using lt by auto
      let ?new = "(start, start + 1000) # new"
      have 1: "chunkWindows_loop len 1000 200 start ws = Some (ws @ ?new)"
        using True False e run by (subst chunkWindows_loop.simps) (simp add: add.commute)
      have 2: "?new \<noteq> [] \<and> fst (hd ?new) = start \<and> snd (last ?new) = int len"
        using ne l by simp
      have 3: "\<forall>(s, e) \<in> set ?new. start \<le> s \<and> s < e \<and> e \<le> int len \<and> e \<le> s + 1000"
        using rng lt by auto
      have 4: "\<forall>i. start \<le> i \<and> i < int len \<longrightarrow> (\<exists>(s, e) \<in> set ?new. s \<le> i \<and> i < e)"
      proof (intro allI impI)
        fix i assume i: "start \<le> i \<and> i < int len"
        show "\<exists>(s, e) \<in> set ?new. s \<le> i \<and> i < e"
        proof (cases "i < start + 1000")
          case True
          with i show ?thesis by simp
        next
          case False
          with i cov have "\<exists>(s, e) \<in> set new. s \<le> i \<and> i < e" by simp
          then show ?thesis by auto
        qed
      qed
      have hd0: "new ! 0 = hd new" using ne by (simp add: hd_conv_nth)
      have first_end: "start + 1000 < snd (hd new)"
      proof (cases "length new = 1")
        case True
        then have "last new = hd new" using ne by (cases new) auto
        with l lt show ?thesis by simp
      next
        case False
        with ne have "Suc 0 < length new" by (cases new) auto
        with ovl have "fst (new ! Suc 0) + 200 = snd (new ! 0)" "fst (new ! Suc 0) = fst (new ! 0) + 800"
          by blast+
        with h hd0 show ?thesis by simp
      qed
      have 5: "\<forall>k. Suc k < length ?new \<longrightarrow>
          fst (?new ! Suc k) = fst (?new ! k) + 800 \<and> fst (?new ! Suc k) + 200 = snd (?new ! k) \<and>
          snd (?new ! k) < snd (?new ! Suc k)"
      proof (intro allI impI)
        fix k assume k: "Suc k < length ?new"
        show "fst (?new ! Suc k) = fst (?new ! k) + 800 \<and> fst (?new ! Suc k) + 200 = snd (?new ! k) \<and>
          snd (?new ! k) < snd (?new ! Suc k)"
        proof (cases k)
          case 0
          then show ?thesis using h hd0 first_end by simp
        next
          case (Suc j)
          with k have "Suc j < length new" by simp
          with ovl have "fst (new ! Suc j) = fst (new ! j) + 800 \<and>
              fst (new ! Suc j) + 200 = snd (new ! j) \<and> snd (new ! j) < snd (new ! Suc j)"
            by blast
          with Suc show ?thesis by simp
        qed
      qed
      from 1 2 3 4 5 show ?thesis by blast
    qed
  qed
qed

text \<open>
  C10. \<open>chunkText\<close> returns for every text whenever \<open>chunkOverlap < chunkSize\<close>, so in
  particular with the defaults 1000 and 200. With the defaults the windows it slices, before
  trimming, lie inside the text, start 800 characters apart, cover every character position,
  and each window shares exactly its last 200 characters with the start of the next.
\<close>

theorem chunkText_terminates_and_covers:
  "(\<forall>chunkSize chunkOverlap. chunkOverlap < chunkSize \<longrightarrow>
      (\<exists>cs. chunkText text chunkSize chunkOverlap = Some cs)) \<and>
   (\<exists>ws. chunkWindows text 1000 200 = Some ws \<and>
      chunkText text 1000 200 = Some (map (\<lambda>(s, e). js_trim (js_slice text s e)) ws) \<and>
      (\<forall>(s, e) \<in> set ws. 0 \<le> s \<and> s < e \<and> e \<le> int (length text) \<and> e \<le> s + 1000) \<and>
      (\<forall>i < length text. \<exists>(s, e) \<in> set ws. s \<le> int i \<and> int i < e) \<and>
      (\<forall>k. Suc k < length ws \<longrightarrow>
         fst (ws ! Suc k) = fst (ws ! k) + 800 \<and> fst (ws ! Suc k) + 200 = snd (ws ! k) \<and>
         snd (ws ! k) < snd (ws ! Suc k)))"
proof (intro conjI allI impI)
  fix chunkSize chunkOverlap :: int
  assume "chunkOverlap < chunkSize"
  then show "\<exists>cs. chunkText text chunkSize chunkOverlap = Some cs"
    unfolding chunkText_def by (rule chunkText_loop_terminates)
next
  from chunkWindows_loop_default [of "length text" 0 "[]"]
  obtain ws where
    run: "chunkWindows_loop (length text) 1000 200 0 [] = Some ws"
    and rng: "\<forall>(s, e) \<in> set ws. 0 \<le> s \<and> s < e \<and> e \<le> int (length text) \<and> e \<le> s + 1000"
    and cov: "\<forall>i. 0 \<le> i \<and> i < int (length text) \<longrightarrow> (\<exists>(s, e) \<in> set ws. s \<le> i \<and> i < e)"
    and ovl: "\<forall>k. Suc k < length ws \<longrightarrow>
         fst (ws ! Suc k) = fst (ws ! k) + 800 \<and> fst (ws ! Suc k) + 200 = snd (ws ! k) \<and>
         snd (ws ! k) < snd (ws ! Suc k)"
    by auto
  have chunks_eq: "chunkText text 1000 200 = Some (map (\<lambda>(s, e). js_trim (js_slice text s e)) ws)"
    using chunkText_loop_windows [OF run] by (simp add: chunkText_def)
  have covn: "\<forall>i < length text. \<exists>(s, e) \<in> set ws. s \<le> int i \<and> int i < e"
    using cov by simp
  from run chunks_eq rng covn ovl
  show "\<exists>ws. chunkWindows text 1000 200 = Some ws \<and>
      chunkText text 1000 200 = Some (map (\<lambda>(s, e). js_trim (js_slice text s e)) ws) \<and>
      (\<forall>(s, e) \<in> set ws. 0 \<le> s \<and> s < e \<and> e \<le> int (length text) \<and> e \<le> s + 1000) \<and>
      (\<forall>i < length text. \<exists>(s, e) \<in> set ws. s \<le> int i \<and> int i < e) \<and>
      (\<forall>k. Suc k < length ws \<longrightarrow>
         fst (ws ! Suc k) = fst (ws ! k) + 800 \<and> fst (ws ! Suc k) + 200 = snd (ws ! k) \<and>
         snd (ws ! k) < snd (ws ! Suc k))"
    unfolding chunkWindows_def by blast
qed

theorem chunkText_terminates_and_covers_witness:
  "(200::int) < 1000 \<and>
   (\<exists>cs. chunkText (replicate 1900 97) 1000 200 = Some cs) \<and>
   chunkWindows (replicate 1900 97) 1000 200 = Some [(0, 1000), (800, 1800), (1600, 1900)] \<and>
   chunkText (replicate 1900 97) 1000 200 =
     Some (map (\<lambda>(s, e). js_trim (js_slice (replicate 1900 97) s e))
            [(0, 1000), (800, 1800), (1600, 1900)]) \<and>
   (1700::nat) < length (replicate 1900 (97::nat)) \<and>
   (\<exists>(s, e) \<in> set [(0, 1000), (800, 1800), (1600::int, 1900::int)]. s \<le> 1700 \<and> 1700 < e) \<and>
   Suc 0 < length [(0, 1000), (800, 1800), (1600::int, 1900::int)]"
proof -
  have w: "chunkWindows (replicate 1900 97) 1000 200 = Some [(0, 1000), (800, 1800), (1600, 1900)]"
    by (simp add: chunkWindows_def chunkWindows_loop.simps)
  from chunkText_terminates_and_covers [of "replicate 1900 97"] w
  have "(\<exists>cs. chunkText (replicate 1900 97) 1000 200 = Some cs) \<and>
     chunkText (replicate 1900 97) 1000 200 =
     Some (map (\<lambda>(s, e). js_trim (js_slice (replicate 1900 97) s e))
            [(0, 1000), (800, 1800), (1600, 1900)])"
    by auto
  with w show ?thesis by simp
qed

section \<open>Properties of change detection\<close>

lemma ascii_eq_simps [simp]: "ascii [] = []" "ascii (c # cs) = of_char c # ascii cs"
  by (simp_all add: ascii_def)


lemma detectSingleChange_world:
  "snd (detectSingleChange env content w) = attempt (SelectResourceByUrl (sc_url content)) w"
  by (simp add: detectSingleChange_def select_resource_by_url_def)

lemma detectSingleChange_fail:
  "db_fails env (tick w) \<Longrightarrow>
   fst (detectSingleChange env content w) =
     \<lparr>cd_url = sc_url content, cd_changeType = New, cd_oldHash = None,
      cd_newHash = sc_contentHash content, cd_resourceId = None\<rparr>"
  by (simp add: detectSingleChange_def select_resource_by_url_def)


lemma tick_attempt: "tick (attempt c w) = Suc (tick w)"
  by (simp add: tick_def attempt_def)

lemma detectChanges_loop_eq:
  "detectChanges_loop env pages results w =
     (results @ map (\<lambda>i. fst (detectSingleChange env (pages ! i)
                  (w\<lparr>journal := journal w @ map (\<lambda>p. SelectResourceByUrl (sc_url p)) (take i pages)\<rparr>)))
                [0..<length pages],
      w\<lparr>journal := journal w @ map (\<lambda>p. SelectResourceByUrl (sc_url p)) pages\<rparr>)"
proof (induction pages arbitrary: results w)
  case Nil
  then show ?case by simp
next
  case (Cons p ps)
  obtain r w' where d: "detectSingleChange env p w = (r, w')" by (cases "detectSingleChange env p w")
  from d have w': "w' = attempt (SelectResourceByUrl (sc_url p)) w"
    using detectSingleChange_world [of env p w] by simp
  have r: "r = fst (detectSingleChange env p w)" using d by simp
  have upt: "[0..<length (p # ps)] = 0 # map Suc [0..<length ps]"
    by (simp add: upt_conv_Cons map_Suc_upt del: upt_Suc)
  show ?case
    by (simp only: detectChanges_loop.simps d prod.case Cons.IH upt)
       (simp add: w' r attempt_def o_def)
qed

text \<open>
  C1. When the store answers the lookup, a scraped page is classified by what is stored
  under its URL: \<open>new\<close>, without old hash and resource id, when no row has the URL;
  \<open>unchanged\<close>, with the id of the stored row, when the stored hash equals the page's hash;
  \<open>updated\<close>, with the id, the stored hash as \<open>oldHash\<close> and the page's hash as
  \<open>newHash\<close>, when a row is stored and the hashes differ. \<open>change_type\<close> has no fourth
  value.
\<close>

theorem detectSingleChange_classifies:
  assumes "\<not> db_fails env (tick w)"
  shows
    "(filter (\<lambda>r. res_sourceUrl r = Some (sc_url content)) (resources_tbl w) = [] \<longrightarrow>
        fst (detectSingleChange env content w) =
          \<lparr>cd_url = sc_url content, cd_changeType = New, cd_oldHash = None,
           cd_newHash = sc_contentHash content, cd_resourceId = None\<rparr>) \<and>
     (\<forall>stored rest.
        filter (\<lambda>r. res_sourceUrl r = Some (sc_url content)) (resources_tbl w) = stored # rest \<longrightarrow>
        (res_contentHash stored = Some (sc_contentHash content) \<longrightarrow>
           fst (detectSingleChange env content w) =
             \<lparr>cd_url = sc_url content, cd_changeType = Unchanged,
              cd_oldHash = Some (sc_contentHash content),
              cd_newHash = sc_contentHash content, cd_resourceId = Some (res_id stored)\<rparr>) \<and>
        (res_contentHash stored \<noteq> Some (sc_contentHash content) \<longrightarrow>
           fst (detectSingleChange env content w) =
             \<lparr>cd_url = sc_url content, cd_changeType = Updated,
              cd_oldHash = res_contentHash stored,
              cd_newHash = sc_contentHash content, cd_resourceId = Some (res_id stored)\<rparr>))"
  using assms by (simp add: detectSingleChange_def select_resource_by_url_def)


theorem detectSingleChange_classifies_witness:
  "\<not> db_fails env_ok (tick stored_world) \<and>
   filter (\<lambda>r. res_sourceUrl r = Some (sc_url (page ''u2'' ''h9''))) (resources_tbl stored_world) = [] \<and>
   fst (detectSingleChange env_ok (page ''u2'' ''h9'') stored_world) =
     \<lparr>cd_url = ascii ''u2'', cd_changeType = New, cd_oldHash = None,
      cd_newHash = ascii ''h9'', cd_resourceId = None\<rparr> \<and>
   filter (\<lambda>r. res_sourceUrl r = Some (sc_url (page ''u1'' ''h1''))) (resources_tbl stored_world) =
     stored_resource # [] \<and>
   res_contentHash stored_resource = Some (sc_contentHash (page ''u1'' ''h1'')) \<and>
   fst (detectSingleChange env_ok (page ''u1'' ''h1'') stored_world) =
     \<lparr>cd_url = ascii ''u1'', cd_changeType = Unchanged, cd_oldHash = Some (ascii ''h1''),
      cd_newHash = ascii ''h1'', cd_resourceId = Some (ascii ''r1'')\<rparr> \<and>
   res_contentHash stored_resource \<noteq> Some (sc_contentHash (page ''u1'' ''h2'')) \<and>
   fst (detectSingleChange env_ok (page ''u1'' ''h2'') stored_world) =
     \<lparr>cd_url = ascii ''u1'', cd_changeType = Updated, cd_oldHash = Some (ascii ''h1''),
      cd_newHash = ascii ''h2'', cd_resourceId = Some (ascii ''r1'')\<rparr>"
proof -
  have ok: "\<not> db_fails env_ok (tick stored_world)" by (simp add: env_ok_def)
  have f2: "filter (\<lambda>r. res_sourceUrl r = Some (sc_url (page ''u2'' ''h9''))) (resources_tbl stored_world) = []"
    by (simp add: stored_world_def stored_resource_def page_def)
  have f1: "filter (\<lambda>r. res_sourceUrl r = Some (sc_url (page ''u1'' h))) (resources_tbl stored_world) =
      stored_resource # []" for h
    by (simp add: stored_world_def stored_resource_def page_def)
  have h1: "res_contentHash stored_resource = Some (sc_contentHash (page ''u1'' ''h1''))"
    by (simp add: stored_resource_def page_def)
  have h2: "res_contentHash stored_resource \<noteq> Some (sc_contentHash (page ''u1'' ''h2''))"
    by (simp add: stored_resource_def page_def)
  note c = detectSingleChange_classifies [OF ok]
  from c [of "page ''u2'' ''h9''"] f2
  have 1: "fst (detectSingleChange env_ok (page ''u2'' ''h9'') stored_world) =
     \<lparr>cd_url = ascii ''u2'', cd_changeType = New, cd_oldHash = None,
      cd_newHash = ascii ''h9'', cd_resourceId = None\<rparr>"
    by (simp add: page_def)
  from c [of "page ''u1'' ''h1''"] f1 h1
  have 2: "fst (detectSingleChange env_ok (page ''u1'' ''h1'') stored_world) =
     \<lparr>cd_url = ascii ''u1'', cd_changeType = Unchanged, cd_oldHash = Some (ascii ''h1''),
      cd_newHash = ascii ''h1'', cd_resourceId = Some (ascii ''r1'')\<rparr>"
    by (simp add: page_def stored_resource_def)
  from c [of "page ''u1'' ''h2''"] f1 h2
  have 3: "fst (detectSingleChange env_ok (page ''u1'' ''h2'') stored_world) =
     \<lparr>cd_url = ascii ''u1'', cd_changeType = Updated, cd_oldHash = Some (ascii ''h1''),
      cd_newHash = ascii ''h2'', cd_resourceId = Some (ascii ''r1'')\<rparr>"
    by (simp add: page_def stored_resource_def)
  from ok f2 f1 h1 h2 1 2 3 show ?thesis by blast
qed


text \<open>
  C6. When the lookup throws, \<open>detectSingleChange\<close> returns a \<open>new\<close> record with the
  page's hash and no resource id instead of the exception. \<open>detectChanges\<close> returns one
  record per page, the \<open>i\<close>-th being what \<open>detectSingleChange\<close> gives for the \<open>i\<close>-th
  page after the \<open>i\<close> lookups before it, whether or not any of those threw.
\<close>

theorem detectChanges_fail_open:
  "(db_fails env (tick w) \<longrightarrow>
      detectSingleChange env content w =
        (\<lparr>cd_url = sc_url content, cd_changeType = New, cd_oldHash = None,
          cd_newHash = sc_contentHash content, cd_resourceId = None\<rparr>,
         attempt (SelectResourceByUrl (sc_url content)) w)) \<and>
   length (fst (detectChanges env pages w)) = length pages \<and>
   (\<forall>i < length pages.
      fst (detectChanges env pages w) ! i =
        fst (detectSingleChange env (pages ! i)
              (w\<lparr>journal := journal w @ map (\<lambda>p. SelectResourceByUrl (sc_url p)) (take i pages)\<rparr>)) \<and>
      (db_fails env (tick w + i) \<longrightarrow>
         fst (detectChanges env pages w) ! i =
           \<lparr>cd_url = sc_url (pages ! i), cd_changeType = New, cd_oldHash = None,
            cd_newHash = sc_contentHash (pages ! i), cd_resourceId = None\<rparr>))"
proof (intro conjI allI impI)
  assume "db_fails env (tick w)"
  then show "detectSingleChange env content w =
        (\<lparr>cd_url = sc_url content, cd_changeType = New, cd_oldHash = None,
          cd_newHash = sc_contentHash content, cd_resourceId = None\<rparr>,
         attempt (SelectResourceByUrl (sc_url content)) w)"
    using detectSingleChange_fail [of env w content] detectSingleChange_world [of env content w]
    by (simp add: prod_eq_iff)
next
  show "length (fst (detectChanges env pages w)) = length pages"
    by (simp add: detectChanges_def detectChanges_loop_eq)
next
  fix i assume i: "i < length pages"
  then show nth: "fst (detectChanges env pages w) ! i =
        fst (detectSingleChange env (pages ! i)
              (w\<lparr>journal := journal w @ map (\<lambda>p. SelectResourceByUrl (sc_url p)) (take i pages)\<rparr>))"
    by (simp add: detectChanges_def detectChanges_loop_eq)
  assume f: "db_fails env (tick w + i)"
  have "tick (w\<lparr>journal := journal w @ map (\<lambda>p. SelectResourceByUrl (sc_url p)) (take i pages)\<rparr>)
        = tick w + i"
    using i by (simp add: tick_def)
  with f nth detectSingleChange_fail
  show "fst (detectChanges env pages w) ! i =
           \<lparr>cd_url = sc_url (pages ! i), cd_changeType = New, cd_oldHash = None,
            cd_newHash = sc_contentHash (pages ! i), cd_resourceId = None\<rparr>"
    by simp
qed

theorem detectChanges_fail_open_witness:
  "db_fails (env_failing_at 1) (tick stored_world + 1) \<and>
   (1::nat) < length [page ''u1'' ''h1'', page ''u1'' ''h2'', page ''u1'' ''h3''] \<and>
   map cd_changeType
     (fst (detectChanges (env_failing_at 1)
            [page ''u1'' ''h1'', page ''u1'' ''h2'', page ''u1'' ''h3''] stored_world)) =
     [Unchanged, New, Updated] \<and>
   fst (detectChanges (env_failing_at 1)
            [page ''u1'' ''h1'', page ''u1'' ''h2'', page ''u1'' ''h3''] stored_world) ! 1 =
     \<lparr>cd_url = ascii ''u1'', cd_changeType = New, cd_oldHash = None,
      cd_newHash = ascii ''h2'', cd_resourceId = None\<rparr>"
proof -
  let ?pages = "[page ''u1'' ''h1'', page ''u1'' ''h2'', page ''u1'' ''h3'']"
  have f: "db_fails (env_failing_at 1) (tick stored_world + 1)"
    by (simp add: env_failing_at_def tick_def stored_world_def)
  have l: "(1::nat) < length ?pages" by simp
  note t = detectChanges_fail_open [of "env_failing_at 1" stored_world "page ''u1'' ''h1''" ?pages,
      THEN conjunct2, THEN conjunct2, rule_format, OF l, THEN conjunct2, rule_format, OF f]
  have 1: "fst (detectChanges (env_failing_at 1) ?pages stored_world) ! 1 =
     \<lparr>cd_url = ascii ''u1'', cd_changeType = New, cd_oldHash = None,
      cd_newHash = ascii ''h2'', cd_resourceId = None\<rparr>"
    by (simp only: t) (simp add: page_def)
  have 2: "map cd_changeType (fst (detectChanges (env_failing_at 1) ?pages stored_world)) =
     [Unchanged, New, Updated]"
    by (simp add: detectChanges_def detectSingleChange_def select_resource_by_url_def
        env_failing_at_def env_ok_def tick_def attempt_def stored_world_def stored_resource_def
        page_def)
  from f l 1 2 show ?thesis by blast
qed

section \<open>Properties of the write path\<close>

lemma chunkText_default_Some: "\<exists>cs. chunkText c 1000 200 = Some cs"
  unfolding chunkText_def by (rule chunkText_loop_terminates) simp

lemma js_slice_all: "js_slice s 0 (int (length s)) = s"
  by (simp add: js_slice_def js_index_def)

lemma chunkText_short:
  "c \<noteq> [] \<Longrightarrow> length c \<le> 1000 \<Longrightarrow> chunkText c 1000 200 = Some [js_trim c]"
  by (simp add: chunkText_def chunkText_loop.simps js_slice_all)

lemma texts_to_embed_short:
  "\<forall>c \<in> set chunks. c \<noteq> [] \<and> length c \<le> 1000 \<and> js_trim c = c \<Longrightarrow> texts_to_embed chunks = chunks"
  by (induction chunks) (simp_all add: texts_to_embed_def chunkText_short)

lemma texts_to_embed_Cons:
  "chunkText c 1000 200 = Some cs \<Longrightarrow> texts_to_embed (c # chunks) = cs @ texts_to_embed chunks"
  by (simp add: texts_to_embed_def)

lemma texts_to_embed_windows:
  "\<exists>css. list_all2 (\<lambda>chunk cs. chunkText chunk 1000 200 = Some cs) chunks css \<and>
         texts_to_embed chunks = concat css"
proof (induction chunks)
  case Nil
  then show ?case by (simp add: texts_to_embed_def)
next
  case (Cons c chunks)
  then obtain css where css: "list_all2 (\<lambda>chunk cs. chunkText chunk 1000 200 = Some cs) chunks css"
    and t: "texts_to_embed chunks = concat css"
    by blast
  obtain cs where cs: "chunkText c 1000 200 = Some cs" using chunkText_default_Some by blast
  have "list_all2 (\<lambda>chunk cs. chunkText chunk 1000 200 = Some cs) (c # chunks) (cs # css)"
    using cs css by simp
  moreover have "texts_to_embed (c # chunks) = concat (cs # css)"
    using texts_to_embed_Cons [OF cs] t by simp
  ultimately show ?case by blast
qed

lemma embed_and_store_ok:
  "embed_and_store env rid c w = (Inr (), w') \<longleftrightarrow>
     embed_svc env (tick w) c \<noteq> None \<and> \<not> db_fails env (Suc (tick w)) \<and>
     w' = w\<lparr>embeddings_tbl := embeddings_tbl w @ new_rows env rid (tick w) [c],
            journal := journal w @ embed_calls rid [c]\<rparr>"
  by (auto simp: embed_and_store_def createEmbedding_def insert_embedding_def tick_def attempt_def
      embed_calls_def split: option.splits)

lemma services_ok_append:
  "services_ok env t (xs @ ys) \<longleftrightarrow> services_ok env t xs \<and> services_ok env (t + 2 * length xs) ys"
  by (induction xs arbitrary: t) auto

lemma new_rows_append:
  "new_rows env rid t (xs @ ys) = new_rows env rid t xs @ new_rows env rid (t + 2 * length xs) ys"
  by (induction xs arbitrary: t) auto

lemma embed_calls_append: "embed_calls rid (xs @ ys) = embed_calls rid xs @ embed_calls rid ys"
  by (simp add: embed_calls_def)

lemma length_embed_calls: "length (embed_calls rid xs) = 2 * length xs"
  by (induction xs) (simp_all add: embed_calls_def)

lemma forEach_embed_and_store:
  "forEach (embed_and_store env rid) cs w = (Inr (), w') \<longleftrightarrow>
     services_ok env (tick w) cs \<and>
     w' = w\<lparr>embeddings_tbl := embeddings_tbl w @ new_rows env rid (tick w) cs,
            journal := journal w @ embed_calls rid cs\<rparr>"
proof (induction cs arbitrary: w)
  case Nil
  then show ?case by (auto simp: embed_calls_def)
next
  case (Cons c cs)
  obtain r w1 where s: "embed_and_store env rid c w = (r, w1)" by (cases "embed_and_store env rid c w")
  show ?case
  proof (cases r)
    case (Inl e)
    with s have "\<not> (embed_svc env (tick w) c \<noteq> None \<and> \<not> db_fails env (Suc (tick w)))"
      using embed_and_store_ok [of env rid c w] 
      by (auto simp: embed_and_store_def createEmbedding_def insert_embedding_def split: option.splits if_splits)
    with s Inl show ?thesis by auto
  next
    case (Inr u)
    with s have ok: "embed_and_store env rid c w = (Inr (), w1)" by simp
    then have 1: "embed_svc env (tick w) c \<noteq> None" "\<not> db_fails env (Suc (tick w))"
      and w1: "w1 = w\<lparr>embeddings_tbl := embeddings_tbl w @ new_rows env rid (tick w) [c],
            journal := journal w @ embed_calls rid [c]\<rparr>"
      by (simp_all add: embed_and_store_ok)
    have t1: "tick w1 = Suc (Suc (tick w))" by (simp add: w1 tick_def embed_calls_def)
    show ?thesis
      using Cons.IH [of w1] 1
      by (simp add: ok t1) (simp add: w1 embed_calls_def)
  qed
qed

lemma forEach_createEmbeddings:
  "forEach (createEmbeddingsForResource env rid) chunks w = (Inr (), w') \<longleftrightarrow>
     services_ok env (tick w) (texts_to_embed chunks) \<and>
     w' = w\<lparr>embeddings_tbl := embeddings_tbl w @ new_rows env rid (tick w) (texts_to_embed chunks),
            journal := journal w @ embed_calls rid (texts_to_embed chunks)\<rparr>"
proof (induction chunks arbitrary: w)
  case Nil
  then show ?case by (auto simp: embed_calls_def texts_to_embed_def)
next
  case (Cons c chunks)
  obtain cs where cs: "chunkText c 1000 200 = Some cs" using chunkText_default_Some by blast
  obtain r w1 where s: "forEach (embed_and_store env rid) cs w = (r, w1)"
    by (cases "forEach (embed_and_store env rid) cs w")
  have step: "createEmbeddingsForResource env rid c w = (r, w1)"
    by (simp add: createEmbeddingsForResource_def cs s)
  show ?case
  proof (cases r)
    case (Inl e)
    with s have "\<not> services_ok env (tick w) cs"
      using forEach_embed_and_store [of env rid cs w] by auto
    with step Inl show ?thesis by (simp add: texts_to_embed_Cons [OF cs] services_ok_append)
  next
    case (Inr u)
    with s have ok: "forEach (embed_and_store env rid) cs w = (Inr (), w1)" by simp
    then have 1: "services_ok env (tick w) cs"
      and w1: "w1 = w\<lparr>embeddings_tbl := embeddings_tbl w @ new_rows env rid (tick w) cs,
            journal := journal w @ embed_calls rid cs\<rparr>"
      by (simp_all add: forEach_embed_and_store)
    have t1: "tick w1 = tick w + 2 * length cs" by (simp add: w1 tick_def length_embed_calls)
    from step Inr have step': "createEmbeddingsForResource env rid c w = (Inr (), w1)" by simp
    show ?thesis
      using Cons.IH [of w1] 1
      by (simp add: step' t1 texts_to_embed_Cons [OF cs] services_ok_append new_rows_append
          embed_calls_append)
        (simp add: w1)
  qed
qed

lemma new_rows_resourceId: "r \<in> set (new_rows env rid t cs) \<Longrightarrow> emb_resourceId r = rid"
  by (induction cs arbitrary: t) auto

lemma filter_new_rows_same:
  "filter (\<lambda>e. emb_resourceId e = rid) (new_rows env rid t cs) = new_rows env rid t cs"
  by (induction cs arbitrary: t) auto

lemma filter_new_rows_other:
  "filter (\<lambda>e. emb_resourceId e \<noteq> rid) (new_rows env rid t cs) = []"
  by (induction cs arbitrary: t) auto

lemma new_rows_content: "map emb_content (new_rows env rid t cs) = cs"
  by (induction cs arbitrary: t) auto

lemma handleUpdatedContent_ok:
  "handleUpdatedContent env rid pc hash w = (Inr (), w') \<longleftrightarrow>
     \<not> db_fails env (tick w) \<and> \<not> db_fails env (Suc (tick w)) \<and>
     services_ok env (tick w + 2) (texts_to_embed (pc_chunks pc)) \<and>
     w' = \<lparr>resources_tbl =
             map (\<lambda>r. if res_id r = rid
                     then r\<lparr>res_content := pc_content pc, res_title := Some (pc_title pc),
                            res_contentHash := Some hash,
                            res_lastScraped := Some (clock env (Suc (tick w))),
                            res_updatedAt := clock env (Suc (tick w))\<rparr>
                     else r) (resources_tbl w),
           embeddings_tbl =
             filter (\<lambda>e. emb_resourceId e \<noteq> rid) (embeddings_tbl w) @
             new_rows env rid (tick w + 2) (texts_to_embed (pc_chunks pc)),
           journal =
             journal w @ DeleteEmbeddings rid # UpdateResource rid #
             embed_calls rid (texts_to_embed (pc_chunks pc))\<rparr>"
  by (auto simp: handleUpdatedContent_def cleanupOldEmbeddings_def updateResource_def
      forEach_createEmbeddings tick_def attempt_def)

text \<open>
  C2. When \<open>handleUpdatedContent\<close> completes, the calls it made are, in this order, the
  deletion of the resource's stored chunks, the update of the resource row, and then one
  embedding request and one insert per text of the new content. The chunks stored for the
  resource are then exactly the rows inserted for the new texts, none of the old ones, and
  the chunks of every other resource are untouched.
\<close>

theorem handleUpdatedContent_replaces_chunks:
  assumes "handleUpdatedContent env resourceId processedContent contentHash w = (Inr (), w')"
  shows
    "journal w' =
       journal w @ DeleteEmbeddings resourceId # UpdateResource resourceId #
       embed_calls resourceId (texts_to_embed (pc_chunks processedContent)) \<and>
     filter (\<lambda>e. emb_resourceId e = resourceId) (embeddings_tbl w') =
       new_rows env resourceId (tick w + 2) (texts_to_embed (pc_chunks processedContent)) \<and>
     map emb_content (filter (\<lambda>e. emb_resourceId e = resourceId) (embeddings_tbl w')) =
       texts_to_embed (pc_chunks processedContent) \<and>
     filter (\<lambda>e. emb_resourceId e \<noteq> resourceId) (embeddings_tbl w') =
       filter (\<lambda>e. emb_resourceId e \<noteq> resourceId) (embeddings_tbl w) \<and>
     (\<exists>css. list_all2 (\<lambda>chunk cs. chunkText chunk 1000 200 = Some cs)
              (pc_chunks processedContent) css \<and>
            texts_to_embed (pc_chunks processedContent) = concat css)"
proof -
  let ?new = "new_rows env resourceId (tick w + 2) (texts_to_embed (pc_chunks processedContent))"
  from assms have j: "journal w' =
       journal w @ DeleteEmbeddings resourceId # UpdateResource resourceId #
       embed_calls resourceId (texts_to_embed (pc_chunks processedContent))"
    and e: "embeddings_tbl w' = filter (\<lambda>e. emb_resourceId e \<noteq> resourceId) (embeddings_tbl w) @ ?new"
    by (simp_all add: handleUpdatedContent_ok)
  have 1: "filter (\<lambda>e. emb_resourceId e = resourceId) (embeddings_tbl w') = ?new"
    by (simp add: e filter_new_rows_same)
  have 2: "filter (\<lambda>e. emb_resourceId e \<noteq> resourceId) (embeddings_tbl w') =
       filter (\<lambda>e. emb_resourceId e \<noteq> resourceId) (embeddings_tbl w)"
    by (simp add: e filter_new_rows_other)
  from j 1 2 texts_to_embed_windows [of "pc_chunks processedContent"] show ?thesis
    by (simp add: new_rows_content)
qed

lemma texts_updated_content: "texts_to_embed (pc_chunks updated_content) = [ascii ''new one'', ascii ''new two'']"
  by (simp add: updated_content_def texts_to_embed_def chunkText_short js_trim_def is_space_def)

theorem handleUpdatedContent_replaces_chunks_witness:
  "handleUpdatedContent env_ok (ascii ''r1'') updated_content (ascii ''h2'') stored_world =
     (Inr (), snd (handleUpdatedContent env_ok (ascii ''r1'') updated_content (ascii ''h2'') stored_world)) \<and>
   map emb_content (filter (\<lambda>e. emb_resourceId e = ascii ''r1'') (embeddings_tbl stored_world)) =
     [ascii ''old one'', ascii ''old two''] \<and>
   map emb_content (filter (\<lambda>e. emb_resourceId e = ascii ''r1'')
     (embeddings_tbl (snd (handleUpdatedContent env_ok (ascii ''r1'') updated_content (ascii ''h2'') stored_world)))) =
     [ascii ''new one'', ascii ''new two''] \<and>
   journal (snd (handleUpdatedContent env_ok (ascii ''r1'') updated_content (ascii ''h2'') stored_world)) =
     [DeleteEmbeddings (ascii ''r1''), UpdateResource (ascii ''r1''),
      Embed (ascii ''new one''), InsertEmbedding (ascii ''r1'') (ascii ''new one''),
      Embed (ascii ''new two''), InsertEmbedding (ascii ''r1'') (ascii ''new two'')]"
proof -
  let ?run = "handleUpdatedContent env_ok (ascii ''r1'') updated_content (ascii ''h2'') stored_world"
  have sv: "services_ok env_ok (tick stored_world + 2) (texts_to_embed (pc_chunks updated_content))"
    by (simp add: texts_updated_content env_ok_def)
  have nf: "\<not> db_fails env_ok n" for n by (simp add: env_ok_def)
  from handleUpdatedContent_ok [THEN iffD2, OF conjI [OF nf conjI [OF nf conjI [OF sv refl]]]]
  have ok: "?run = (Inr (), snd ?run)" by simp
  have old: "map emb_content (filter (\<lambda>e. emb_resourceId e = ascii ''r1'') (embeddings_tbl stored_world)) =
     [ascii ''old one'', ascii ''old two'']"
    by (simp add: stored_world_def)
  from handleUpdatedContent_replaces_chunks [OF ok] ok old show ?thesis
    by (simp add: texts_updated_content embed_calls_def stored_world_def)
qed

section \<open>Trimming, and the legal chunker on text without structure\<close>

lemma length_js_trim: "length (js_trim s) \<le> length s"
proof -
  have "length (dropWhile P xs) \<le> length xs" for P :: "jschar \<Rightarrow> bool" and xs
    by (induction xs) auto
  from this [of is_space "rev (dropWhile is_space s)"] this [of is_space s]
  show ?thesis by (simp add: js_trim_def)
qed

lemma js_trim_id:
  assumes "s \<noteq> []" "\<not> is_space (hd s)" "\<not> is_space (last s)"
  shows "js_trim s = s"
proof -
  from assms have 1: "dropWhile is_space s = s" by (cases s) auto
  from assms have "rev s \<noteq> []" "\<not> is_space (hd (rev s))" by (simp_all add: hd_rev)
  then have 2: "dropWhile is_space (rev s) = rev s" by (cases "rev s") auto
  show ?thesis by (simp add: js_trim_def 1 2)
qed

lemma dropWhile_none: "\<forall>c \<in> set s. \<not> P c \<Longrightarrow> dropWhile P s = s"
  by (cases s) auto

lemma js_trim_no_space: "\<forall>c \<in> set s. \<not> is_space c \<Longrightarrow> js_trim s = s"
  by (simp add: js_trim_def dropWhile_none)

lemma js_trim_snoc_space:
  assumes "is_space c"
  shows "js_trim (s @ [c]) = js_trim s"
proof (cases "\<forall>x \<in> set s. is_space x")
  case True
  then have 1: "dropWhile is_space s = []" by (simp add: dropWhile_eq_Nil_conv)
  from True assms have "\<forall>x \<in> set (s @ [c]). is_space x" by simp
  then have "dropWhile is_space (s @ [c]) = []" by (simp only: dropWhile_eq_Nil_conv)
  then have 2: "dropWhile is_space (s @ [c]) = []" .
  show ?thesis by (simp only: js_trim_def 1 2)
next
  case False
  then have "dropWhile is_space (s @ [c]) = dropWhile is_space s @ [c]"
    by (simp add: dropWhile_append1) (metis dropWhile_append1)
  then show ?thesis using assms by (simp add: js_trim_def)
qed

lemma marker_at_no_paren: "40 \<notin> set s \<Longrightarrow> \<not> marker_at s"
  by (cases s) (auto simp: marker_at_def)

lemma split_paragraphs_no_paren: "40 \<notin> set s \<Longrightarrow> split_paragraphs s = [s]"
  by (induction s) (auto simp: marker_at_no_paren cons_first_def)

lemma replace_all_no_match:
  "\<forall>c \<in> set s. \<not> matches_atom a c \<Longrightarrow> replace_all (a # as) replacement s = s"
  by (induction s) auto

lemma split_sentences_no_terminator:
  "\<forall>c \<in> set s. \<not> is_terminator c \<Longrightarrow> split_sentences s = [s]"
  by (induction s) (auto simp: separator_rest_def cons_first_def)

lemma protect_abbrevs_plain:
  assumes "set s \<subseteq> {97}"
  shows "protect_abbrevs 0 legalAbbrevs s = s"
proof -
  have "replace_all (Lit x # as) replacement s = s" if "x \<noteq> 97" for x as replacement
    using assms that by (intro replace_all_no_match) auto
  then show ?thesis by (simp add: legalAbbrevs_def)
qed

lemma restore_abbrevs_plain:
  assumes "set s \<subseteq> {97}"
  shows "restore_abbrevs 0 legalAbbrevs s = s"
proof -
  have "replace_all (Lit x # as) replacement s = s" if "x \<noteq> 97" for x as replacement
    using assms that by (intro replace_all_no_match) auto
  then show ?thesis by (simp add: legalAbbrevs_def placeholder_def)
qed

lemma splitIntoSentences_plain:
  assumes "set s \<subseteq> {97}"
  shows "splitIntoSentences s = (if length s > 20 then [s] else [])"
proof -
  have t: "\<forall>c \<in> set s. \<not> is_terminator c" using assms by (auto simp: is_terminator_def)
  have sp: "\<forall>c \<in> set s. \<not> is_space c" using assms by (auto simp: is_space_def)
  show ?thesis
    by (simp add: splitIntoSentences_def protect_abbrevs_plain [OF assms]
        split_sentences_no_terminator [OF t] restore_abbrevs_plain [OF assms] js_trim_no_space [OF sp])
qed

lemma strategy_chunks_plain:
  assumes "set s \<subseteq> {97}"
  shows "strategy_chunks s title =
    createSemanticChunks (if length s > 20 then [s] else []) title 1200"
proof -
  have "40 \<notin> set s" using assms by auto
  then show ?thesis
    by (simp add: strategy_chunks_def split_paragraphs_no_paren splitIntoSentences_plain [OF assms])
qed

lemma one_long_sentence:
  "chunkLegalText (replicate 1300 97) (ascii ''T'') = [84 # 10 # 10 # replicate 1300 97 @ [46]]"
proof -
  have t: "js_trim (84 # 10 # 10 # replicate 1300 97 @ [46, 32]) = 84 # 10 # 10 # replicate 1300 97 @ [46]"
    using js_trim_snoc_space [of 32 "84 # 10 # 10 # replicate 1300 97 @ [46]"]
    by (simp add: js_trim_id is_space_def)
  show ?thesis
    by (simp add: chunkLegalText_def strategy_chunks_plain createSemanticChunks_def t)
qed

section \<open>New content\<close>

lemma handleNewContent_ok:
  "handleNewContent env pc hash w = (Inr (), w') \<longleftrightarrow>
     \<not> db_fails env (tick w) \<and>
     services_ok env (Suc (tick w)) (texts_to_embed (pc_chunks pc)) \<and>
     w' = \<lparr>resources_tbl =
             resources_tbl w @
             [\<lparr>res_id = nanoid env (tick w), res_content = pc_content pc,
               res_sourceUrl = Some (pc_sourceUrl pc), res_title = Some (pc_title pc),
               res_contentHash = Some hash, res_lastScraped = Some (clock env (tick w)),
               res_updatedAt = clock env (tick w)\<rparr>],
           embeddings_tbl =
             embeddings_tbl w @
             new_rows env (nanoid env (tick w)) (Suc (tick w)) (texts_to_embed (pc_chunks pc)),
           journal =
             journal w @ InsertResource (pc_sourceUrl pc) #
             embed_calls (nanoid env (tick w)) (texts_to_embed (pc_chunks pc))\<rparr>"
  by (auto simp: handleNewContent_def insert_resource_def forEach_createEmbeddings tick_def
      attempt_def)

text \<open>
  C3, as the code has it. When \<open>handleNewContent\<close> completes, it has inserted the resource
  row first and then, for every chunk, passed the chunk through \<open>chunkText\<close> (windows of
  1000 characters that overlap by 200, each trimmed) and, for every text this gives, called
  the embedding service and inserted a row with the new resource's id, that text and the
  embedding returned. The text is the chunk itself for chunks that are not empty, at most
  1000 characters long and without whitespace at either end.
\<close>

theorem handleNewContent_stores_windows:
  assumes "handleNewContent env processedContent contentHash w = (Inr (), w')"
  shows
    "journal w' =
       journal w @ InsertResource (pc_sourceUrl processedContent) #
       embed_calls (nanoid env (tick w)) (texts_to_embed (pc_chunks processedContent)) \<and>
     resources_tbl w' =
       resources_tbl w @
       [\<lparr>res_id = nanoid env (tick w), res_content = pc_content processedContent,
         res_sourceUrl = Some (pc_sourceUrl processedContent),
         res_title = Some (pc_title processedContent),
         res_contentHash = Some contentHash, res_lastScraped = Some (clock env (tick w)),
         res_updatedAt = clock env (tick w)\<rparr>] \<and>
     embeddings_tbl w' =
       embeddings_tbl w @
       new_rows env (nanoid env (tick w)) (Suc (tick w))
         (texts_to_embed (pc_chunks processedContent)) \<and>
     services_ok env (Suc (tick w)) (texts_to_embed (pc_chunks processedContent)) \<and>
     map emb_content
       (new_rows env (nanoid env (tick w)) (Suc (tick w))
         (texts_to_embed (pc_chunks processedContent))) =
       texts_to_embed (pc_chunks processedContent) \<and>
     (\<exists>css. list_all2 (\<lambda>chunk cs. chunkText chunk 1000 200 = Some cs)
              (pc_chunks processedContent) css \<and>
            texts_to_embed (pc_chunks processedContent) = concat css) \<and>
     ((\<forall>chunk \<in> set (pc_chunks processedContent).
         chunk \<noteq> [] \<and> length chunk \<le> 1000 \<and> js_trim chunk = chunk) \<longrightarrow>
      texts_to_embed (pc_chunks processedContent) = pc_chunks processedContent)"
  using assms texts_to_embed_windows [of "pc_chunks processedContent"]
  by (simp add: handleNewContent_ok new_rows_content texts_to_embed_short)

lemma texts_new_content: "texts_to_embed (pc_chunks new_content) = [ascii ''new one'', ascii ''new two'']"
  by (simp add: new_content_def texts_updated_content)

theorem handleNewContent_stores_windows_witness:
  "handleNewContent env_ok new_content (ascii ''h2'') stored_world =
     (Inr (), snd (handleNewContent env_ok new_content (ascii ''h2'') stored_world)) \<and>
   list_all (\<lambda>chunk. chunk \<noteq> [] \<and> length chunk \<le> 1000 \<and> js_trim chunk = chunk)
     (pc_chunks new_content) \<and>
   texts_to_embed (pc_chunks new_content) = pc_chunks new_content \<and>
   pc_chunks new_content = [ascii ''new one'', ascii ''new two''] \<and>
   journal (snd (handleNewContent env_ok new_content (ascii ''h2'') stored_world)) =
     [InsertResource (ascii ''u2''),
      Embed (ascii ''new one''), InsertEmbedding (ascii ''id0'') (ascii ''new one''),
      Embed (ascii ''new two''), InsertEmbedding (ascii ''id0'') (ascii ''new two'')] \<and>
   map emb_content (embeddings_tbl (snd (handleNewContent env_ok new_content (ascii ''h2'') stored_world))) =
     [ascii ''old one'', ascii ''other'', ascii ''old two'', ascii ''new one'', ascii ''new two'']"
proof -
  let ?run = "handleNewContent env_ok new_content (ascii ''h2'') stored_world"
  have sv: "services_ok env_ok (Suc (tick stored_world)) (texts_to_embed (pc_chunks new_content))"
    by (simp add: texts_new_content env_ok_def)
  have nf: "\<not> db_fails env_ok n" for n by (simp add: env_ok_def)
  from handleNewContent_ok [THEN iffD2, OF conjI [OF nf conjI [OF sv refl]]]
  have ok: "?run = (Inr (), snd ?run)" by simp
  have c: "pc_chunks new_content = [ascii ''new one'', ascii ''new two'']"
    by (simp add: new_content_def updated_content_def)
  have short: "\<forall>chunk \<in> set (pc_chunks new_content).
      chunk \<noteq> [] \<and> length chunk \<le> 1000 \<and> js_trim chunk = chunk"
    by (simp add: c js_trim_def is_space_def)
  from handleNewContent_stores_windows [OF ok] ok short c show ?thesis
    by (simp add: embed_calls_def stored_world_def env_ok_def new_content_def tick_def
        list_all_iff)
qed

lemma long_chunk:
  "chunkLegalText (replicate 1100 97) (ascii ''T'') = [84 # 10 # 10 # replicate 1100 97 @ [46]]"
proof -
  have t: "js_trim (84 # 10 # 10 # replicate 1100 97 @ [46, 32]) = 84 # 10 # 10 # replicate 1100 97 @ [46]"
    using js_trim_snoc_space [of 32 "84 # 10 # 10 # replicate 1100 97 @ [46]"]
    by (simp add: js_trim_id is_space_def)
  show ?thesis
    by (simp add: chunkLegalText_def strategy_chunks_plain createSemanticChunks_def t)
qed

lemma long_chunk_windows:
  "chunkText (84 # 10 # 10 # replicate 1100 97 @ [46]) 1000 200 =
     Some [84 # 10 # 10 # replicate 997 97, replicate 303 97 @ [46]]"
proof -
  have 1: "js_trim (84 # 10 # 10 # replicate 997 97) = 84 # 10 # 10 # replicate 997 97"
    by (simp add: js_trim_id is_space_def)
  have 2: "js_trim (replicate 303 97 @ [46]) = replicate 303 97 @ [46]"
    by (intro js_trim_no_space) (simp add: is_space_def)
  show ?thesis
    by (simp add: chunkText_def chunkText_loop.simps js_slice_def js_index_def 1 2)
qed

text \<open>
  C3 as stated fails: the legal chunker turns a page of 1100 letters into one chunk of 1104
  characters, and \<open>handleNewContent\<close> stores two rows for it, the first 1000 characters
  and the last 304, neither of which is the chunk.
\<close>

theorem handleNewContent_rechunks_counterexample:
  "pc_chunks long_content = [84 # 10 # 10 # replicate 1100 97 @ [46]] \<and>
   fst (handleNewContent env_ok long_content (ascii ''h2'') stored_world) = Inr () \<and>
   map emb_content (embeddings_tbl (snd (handleNewContent env_ok long_content (ascii ''h2'') stored_world))) =
     [ascii ''old one'', ascii ''other'', ascii ''old two'',
      84 # 10 # 10 # replicate 997 97, replicate 303 97 @ [46]] \<and>
   84 # 10 # 10 # replicate 1100 97 @ [46] \<notin>
     set (map emb_content (embeddings_tbl (snd (handleNewContent env_ok long_content (ascii ''h2'') stored_world))))"
proof -
  let ?run = "handleNewContent env_ok long_content (ascii ''h2'') stored_world"
  have c: "pc_chunks long_content = [84 # 10 # 10 # replicate 1100 97 @ [46]]"
    by (simp add: long_content_def long_chunk [simplified])
  have t: "texts_to_embed (pc_chunks long_content) =
      [84 # 10 # 10 # replicate 997 97, replicate 303 97 @ [46]]"
    by (simp add: c texts_to_embed_def long_chunk_windows)
  have sv: "services_ok env_ok (Suc (tick stored_world)) (texts_to_embed (pc_chunks long_content))"
    by (simp add: t env_ok_def)
  have nf: "\<not> db_fails env_ok n" for n by (simp add: env_ok_def)
  from handleNewContent_ok [THEN iffD2, OF conjI [OF nf conjI [OF sv refl]]]
  have ok: "?run = (Inr (), snd ?run)" by simp
  then have 1: "fst ?run = Inr ()" by (metis fst_conv)
  from ok have e: "embeddings_tbl (snd ?run) =
     embeddings_tbl stored_world @
       new_rows env_ok (nanoid env_ok (tick stored_world)) (Suc (tick stored_world))
         (texts_to_embed (pc_chunks long_content))"
    by (simp add: handleNewContent_ok)
  have 2: "map emb_content (embeddings_tbl (snd ?run)) =
     [ascii ''old one'', ascii ''other'', ascii ''old two'',
      84 # 10 # 10 # replicate 997 97, replicate 303 97 @ [46]]"
    unfolding e map_append new_rows_content t by (simp add: stored_world_def)
  have ne1: "length (84 # 10 # 10 # replicate 1100 97 @ [46]) \<noteq> length x"
    if "x \<in> set [ascii ''old one'', ascii ''other'', ascii ''old two'',
      84 # 10 # 10 # replicate 997 97, replicate 303 97 @ [46]]" for x :: jsstring
    using that by auto
  then have 3: "84 # 10 # 10 # replicate 1100 97 @ [46] \<notin>
     set (map emb_content (embeddings_tbl (snd ?run)))"
    unfolding 2 by blast
  from c 1 2 3 show ?thesis by blast
qed

section \<open>The structural split\<close>

lemma split_foo_bar:
  "split_paragraphs (ascii ''(1) foo (2) bar'') = [ascii ''(1) foo '', ascii ''(2) bar'']"
  by (simp add: marker_at_def is_digit_def cons_first_def)

lemma trim_foo: "js_trim (ascii ''(1) foo '') = ascii ''(1) foo''"
  by (simp add: js_trim_def is_space_def)

lemma trim_bar: "js_trim (ascii ''(2) bar'') = ascii ''(2) bar''"
  by (simp add: js_trim_def is_space_def)

lemma strategy_foo_bar:
  "strategy_chunks (ascii ''(1) foo (2) bar'') title =
     (if 91 < length title then [title @ [10, 10] @ ascii ''(1) foo''] else []) @
     (if 90 < length title then [title @ ascii '' - '' @ ascii ''(2) bar''] else [])"
  unfolding strategy_chunks_def split_foo_bar
  by (simp add: trim_foo trim_bar del: ascii_eq_simps) (simp add: ascii_def)

text \<open>
  C4, as the code has it. The content \<open>(1) foo (2) bar\<close> splits into the two segments
  \<open>(1) foo\<close> and \<open>(2) bar\<close>. A chunk is the title, two newlines and the first segment,
  or the title, \<open> - \<close> and a later segment, and it is kept only when the whole chunk, title
  included, is longer than 100 characters. So a title of more than 91 characters gives
  exactly these two chunks, a title of 91 characters gives the second only, and a shorter
  title gives none (the content is too short for the fallback to the full content).
\<close>

theorem chunkLegalText_foo_bar:
  "(91 < length title \<longrightarrow>
      chunkLegalText (ascii ''(1) foo (2) bar'') title =
        [title @ [10, 10] @ ascii ''(1) foo'', title @ ascii '' - '' @ ascii ''(2) bar'']) \<and>
   (length title = 91 \<longrightarrow>
      chunkLegalText (ascii ''(1) foo (2) bar'') title = [title @ ascii '' - '' @ ascii ''(2) bar'']) \<and>
   (length title < 91 \<longrightarrow> chunkLegalText (ascii ''(1) foo (2) bar'') title = [])"
  unfolding chunkLegalText_def strategy_foo_bar by (simp add: ascii_def)

theorem chunkLegalText_foo_bar_witness:
  "(91::nat) < length (replicate 92 (84::nat)) \<and>
   chunkLegalText (ascii ''(1) foo (2) bar'') (replicate 92 84) =
     [replicate 92 84 @ [10, 10] @ ascii ''(1) foo'', replicate 92 84 @ ascii '' - '' @ ascii ''(2) bar''] \<and>
   length (replicate 91 (84::nat)) = 91 \<and>
   chunkLegalText (ascii ''(1) foo (2) bar'') (replicate 91 84) =
     [replicate 91 84 @ ascii '' - '' @ ascii ''(2) bar''] \<and>
   length (ascii ''Definitions'') < 91 \<and>
   chunkLegalText (ascii ''(1) foo (2) bar'') (ascii ''Definitions'') = []"
  using chunkLegalText_foo_bar [of "replicate 92 84"] chunkLegalText_foo_bar [of "replicate 91 84"]
    chunkLegalText_foo_bar [of "ascii ''Definitions''"]
  by (simp del: ascii_eq_simps) (simp add: ascii_def)

text \<open>
  C4 as stated fails for every title of fewer than 91 characters: no chunk is produced.
\<close>

theorem chunkLegalText_foo_bar_counterexample:
  "chunkLegalText (ascii ''(1) foo (2) bar'') (ascii ''17 U.S. Code 1001 - Definitions'') = []"
  unfolding chunkLegalText_def strategy_foo_bar by (simp add: ascii_def)

section \<open>The fallback to the full content\<close>

text \<open>
  C9. When neither strategy yields a chunk and the content is longer than 50 characters,
  the chunker returns exactly one chunk: the title, two newlines and the content, cut to its
  first 2000 characters. In every other case it returns the chunks of the strategies.
\<close>

theorem chunkLegalText_failsafe:
  "(strategy_chunks content title = [] \<and> 50 < length content \<longrightarrow>
      chunkLegalText content title = [take 2000 (title @ [10, 10] @ content)]) \<and>
   (strategy_chunks content title \<noteq> [] \<or> length content \<le> 50 \<longrightarrow>
      chunkLegalText content title = strategy_chunks content title) \<and>
   length (take 2000 (title @ [10, 10] @ content)) \<le> 2000"
  by (auto simp: chunkLegalText_def)

lemma short_paragraphs:
  "strategy_chunks (ascii ''(1) the first paragraph is short (2) and so is the second'') (ascii ''Title'') = []"
  by (simp add: strategy_chunks_def marker_at_def is_digit_def cons_first_def js_trim_def is_space_def)

lemma short_sentences:
  "strategy_chunks (ascii ''No. It is not. Yes. It surely is. No. It is not. Yes. It is.'') (ascii ''Title'') = []"
  by (simp add: strategy_chunks_def marker_at_def is_digit_def cons_first_def js_trim_def is_space_def
      splitIntoSentences_def legalAbbrevs_def placeholder_def separator_rest_def is_terminator_def
      is_line_terminator_def createSemanticChunks_def)

theorem chunkLegalText_failsafe_witness:
  "strategy_chunks (ascii ''(1) the first paragraph is short (2) and so is the second'') (ascii ''Title'') = [] \<and>
   50 < length (ascii ''(1) the first paragraph is short (2) and so is the second'') \<and>
   chunkLegalText (ascii ''(1) the first paragraph is short (2) and so is the second'') (ascii ''Title'') =
     [ascii ''Title'' @ [10, 10] @ ascii ''(1) the first paragraph is short (2) and so is the second''] \<and>
   strategy_chunks (ascii ''No. It is not. Yes. It surely is. No. It is not. Yes. It is.'') (ascii ''Title'') = [] \<and>
   50 < length (ascii ''No. It is not. Yes. It surely is. No. It is not. Yes. It is.'') \<and>
   chunkLegalText (ascii ''No. It is not. Yes. It surely is. No. It is not. Yes. It is.'') (ascii ''Title'') =
     [ascii ''Title'' @ [10, 10] @ ascii ''No. It is not. Yes. It surely is. No. It is not. Yes. It is.''] \<and>
   length (ascii ''(1) foo (2) bar'') \<le> 50 \<and>
   chunkLegalText (ascii ''(1) foo (2) bar'') (ascii ''Title'') =
     strategy_chunks (ascii ''(1) foo (2) bar'') (ascii ''Title'')"
proof -
  let ?p = "ascii ''(1) the first paragraph is short (2) and so is the second''"
  let ?s = "ascii ''No. It is not. Yes. It surely is. No. It is not. Yes. It is.''"
  have lp: "50 < length ?p" and ls: "50 < length ?s" and lf: "length (ascii ''(1) foo (2) bar'') \<le> 50"
    by (simp_all add: ascii_def)
  have tp: "take 2000 (ascii ''Title'' @ [10, 10] @ ?p) = ascii ''Title'' @ [10, 10] @ ?p"
    and ts: "take 2000 (ascii ''Title'' @ [10, 10] @ ?s) = ascii ''Title'' @ [10, 10] @ ?s"
    by (simp_all add: ascii_def)
  from chunkLegalText_failsafe [of ?p "ascii ''Title''"] short_paragraphs lp
  have 1: "chunkLegalText ?p (ascii ''Title'') = [ascii ''Title'' @ [10, 10] @ ?p]"
    unfolding tp by blast
  from chunkLegalText_failsafe [of ?s "ascii ''Title''"] short_sentences ls
  have 2: "chunkLegalText ?s (ascii ''Title'') = [ascii ''Title'' @ [10, 10] @ ?s]"
    unfolding ts by blast
  from chunkLegalText_failsafe [of "ascii ''(1) foo (2) bar''" "ascii ''Title''"] lf
  have 3: "chunkLegalText (ascii ''(1) foo (2) bar'') (ascii ''Title'') =
     strategy_chunks (ascii ''(1) foo (2) bar'') (ascii ''Title'')"
    by blast
  from short_paragraphs lp 1 short_sentences ls 2 lf 3 show ?thesis by blast
qed

section \<open>The semantic fallback\<close>

lemma marker_at_has_marker: "marker_at s \<Longrightarrow> has_marker s"
  by (cases s) (auto simp: marker_at_def)

lemma split_paragraphs_no_marker: "\<not> has_marker s \<Longrightarrow> split_paragraphs s = [s]"
  by (induction s) (auto simp: cons_first_def dest: marker_at_has_marker)

lemma has_marker_no_paren: "40 \<notin> set s \<Longrightarrow> \<not> has_marker s"
  by (induction s) (auto simp: marker_at_def)

lemma splitIntoSentences_long: "\<forall>s \<in> set (splitIntoSentences content). 20 < length s"
  by (simp add: splitIntoSentences_def)

lemma semantic_loop_bound:
  assumes "set ss \<subseteq> S" and "\<forall>s \<in> S. 6 < length s"
    and "cur = title @ [10, 10] \<or>
         (length title + 10 < length cur \<and> (\<exists>pre. cur = pre @ [32]) \<and>
          (length cur \<le> m \<or> (\<exists>s \<in> S. length cur = length title + 4 + length s)))"
    and "\<forall>c \<in> set chunks. length c \<le> m \<or> (\<exists>s \<in> S. length c \<le> length title + 3 + length s)"
    and "semantic_loop title m ss chunks cur = (chunks', cur')"
  shows "(\<forall>c \<in> set chunks'. length c \<le> m \<or> (\<exists>s \<in> S. length c \<le> length title + 3 + length s)) \<and>
         (cur' = title @ [10, 10] \<or>
          (length title + 10 < length cur' \<and> (\<exists>pre. cur' = pre @ [32]) \<and>
           (length cur' \<le> m \<or> (\<exists>s \<in> S. length cur' = length title + 4 + length s))))"
  using assms
proof (induction ss arbitrary: chunks cur)
  case Nil
  then show ?case by simp
next
  case (Cons s ss)
  from Cons.prems(1) have sS: "s \<in> S" and ssS: "set ss \<subseteq> S" by auto
  from sS Cons.prems(2) have ls: "6 < length s" by blast
  show ?case
  proof (cases "length cur + length s + 2 > m \<and> length cur > length title + 10")
    case True
    with Cons.prems(3) have J: "(\<exists>pre. cur = pre @ [32]) \<and>
        (length cur \<le> m \<or> (\<exists>s \<in> S. length cur = length title + 4 + length s))"
      by auto
    then obtain pre where pre: "cur = pre @ [32]" by blast
    from J have b: "length cur \<le> m \<or> (\<exists>s \<in> S. length cur = length title + 4 + length s)"
      by blast
    have "js_trim cur = js_trim pre" unfolding pre by (rule js_trim_snoc_space) (simp add: is_space_def)
    then have "length (js_trim cur) \<le> length pre" using length_js_trim [of pre] by simp
    then have lt: "Suc (length (js_trim cur)) \<le> length cur" by (simp add: pre)
    from b lt have p: "length (js_trim cur) \<le> m \<or>
        (\<exists>s \<in> S. length (js_trim cur) \<le> length title + 3 + length s)"
      by (elim disjE bexE) (auto intro!: bexI)
    have new: "title @ [10, 10] @ s @ [46, 32] = title @ [10, 10] \<or>
         (length title + 10 < length (title @ [10, 10] @ s @ [46, 32]) \<and>
          (\<exists>pre. title @ [10, 10] @ s @ [46, 32] = pre @ [32]) \<and>
          (length (title @ [10, 10] @ s @ [46, 32]) \<le> m \<or>
           (\<exists>s' \<in> S. length (title @ [10, 10] @ s @ [46, 32]) = length title + 4 + length s')))"
    proof -
      have "title @ [10, 10] @ s @ [46, 32] = (title @ [10, 10] @ s @ [46]) @ [32]" by simp
      then have "\<exists>pre. title @ [10, 10] @ s @ [46, 32] = pre @ [32]" by blast
      moreover have "\<exists>s' \<in> S. length (title @ [10, 10] @ s @ [46, 32]) = length title + 4 + length s'"
        using sS by (intro bexI [of _ s]) simp_all
      ultimately show ?thesis using ls by simp
    qed
    have ch: "\<forall>c \<in> set (chunks @ [js_trim cur]).
        length c \<le> m \<or> (\<exists>s \<in> S. length c \<le> length title + 3 + length s)"
      using Cons.prems(4) p by auto
    from Cons.prems(5) True
    have run: "semantic_loop title m ss (chunks @ [js_trim cur]) (title @ [10, 10] @ s @ [46, 32]) = (chunks', cur')"
      by simp
    from Cons.IH [OF ssS Cons.prems(2) new ch run] show ?thesis .
  next
    case False
    from Cons.prems(5) False
    have run: "semantic_loop title m ss chunks (cur @ s @ [46, 32]) = (chunks', cur')"
      by auto
    have new: "cur @ s @ [46, 32] = title @ [10, 10] \<or>
         (length title + 10 < length (cur @ s @ [46, 32]) \<and>
          (\<exists>pre. cur @ s @ [46, 32] = pre @ [32]) \<and>
          (length (cur @ s @ [46, 32]) \<le> m \<or>
           (\<exists>s' \<in> S. length (cur @ s @ [46, 32]) = length title + 4 + length s')))"
    proof -
      have "cur @ s @ [46, 32] = (cur @ s @ [46]) @ [32]" by simp
      then have e: "\<exists>pre. cur @ s @ [46, 32] = pre @ [32]" by blast
      from Cons.prems(3) show ?thesis
      proof
        assume c0: "cur = title @ [10, 10]"
        have "\<exists>s' \<in> S. length (cur @ s @ [46, 32]) = length title + 4 + length s'"
          using sS c0 by (intro bexI [of _ s]) simp_all
        with e ls c0 show ?thesis by simp
      next
        assume "length title + 10 < length cur \<and> (\<exists>pre. cur = pre @ [32]) \<and>
          (length cur \<le> m \<or> (\<exists>s \<in> S. length cur = length title + 4 + length s))"
        then have big: "length title + 10 < length cur" by simp
        with False have "length (cur @ s @ [46, 32]) \<le> m" by simp
        with e big show ?thesis by simp
      qed
    qed
    from Cons.IH [OF ssS Cons.prems(2) new Cons.prems(4) run] show ?thesis .
  qed
qed

lemma createSemanticChunks_bound:
  assumes "\<forall>s \<in> set ss. 6 < length s"
    and "c \<in> set (createSemanticChunks ss title m)"
  shows "length c \<le> m \<or> (\<exists>s \<in> set ss. length c \<le> length title + 3 + length s)"
proof -
  obtain chunks' cur' where run: "semantic_loop title m ss [] (title @ [10, 10]) = (chunks', cur')"
    by (cases "semantic_loop title m ss [] (title @ [10, 10])")
  from semantic_loop_bound [OF subset_refl assms(1) _ _ run, of ]
  have ch: "\<forall>c \<in> set chunks'. length c \<le> m \<or> (\<exists>s \<in> set ss. length c \<le> length title + 3 + length s)"
    and cur: "cur' = title @ [10, 10] \<or>
          (length title + 10 < length cur' \<and> (\<exists>pre. cur' = pre @ [32]) \<and>
           (length cur' \<le> m \<or> (\<exists>s \<in> set ss. length cur' = length title + 4 + length s)))"
    by simp_all
  from assms(2) run have "c \<in> set chunks' \<or> (length title + 10 < length cur' \<and> c = js_trim cur')"
    by (auto simp: createSemanticChunks_def split: if_splits)
  then show ?thesis
  proof
    assume "c \<in> set chunks'"
    with ch show ?thesis by blast
  next
    assume last: "length title + 10 < length cur' \<and> c = js_trim cur'"
    with cur have J: "(\<exists>pre. cur' = pre @ [32]) \<and>
        (length cur' \<le> m \<or> (\<exists>s \<in> set ss. length cur' = length title + 4 + length s))"
      by auto
    then obtain pre where pre: "cur' = pre @ [32]" by blast
    from J have b: "length cur' \<le> m \<or> (\<exists>s \<in> set ss. length cur' = length title + 4 + length s)"
      by blast
    have "js_trim cur' = js_trim pre" unfolding pre by (rule js_trim_snoc_space) (simp add: is_space_def)
    then have "length (js_trim cur') \<le> length pre" using length_js_trim [of pre] by simp
    then have lt: "Suc (length c) \<le> length cur'" using last by (simp add: pre)
    from b lt show ?thesis by (elim disjE bexE) (auto intro!: bexI)
  qed
qed

lemma createSemanticChunks_empty: "createSemanticChunks [] title m = []"
  by (simp add: createSemanticChunks_def)

lemma semantic_loop_grows:
  assumes "\<forall>s \<in> set ss. 6 < length s"
    and "semantic_loop title m ss chunks cur = (chunks', cur')"
    and "length title + 2 \<le> length cur"
  shows "length chunks \<le> length chunks' \<and>
         (length title + 10 < length cur \<or> ss \<noteq> [] \<longrightarrow> length title + 10 < length cur')"
  using assms
proof (induction ss arbitrary: chunks cur)
  case Nil
  then show ?case by simp
next
  case (Cons s ss)
  from Cons.prems(1) have ls: "6 < length s" and rest: "\<forall>s \<in> set ss. 6 < length s" by simp_all
  show ?case
  proof (cases "length cur + length s + 2 > m \<and> length cur > length title + 10")
    case True
    with Cons.prems(2)
    have run: "semantic_loop title m ss (chunks @ [js_trim cur]) (title @ [10, 10] @ s @ [46, 32]) = (chunks', cur')"
      by simp
    from Cons.IH [OF rest run] ls show ?thesis by simp
  next
    case False
    with Cons.prems(2)
    have run: "semantic_loop title m ss chunks (cur @ s @ [46, 32]) = (chunks', cur')"
      by auto
    have "length title + 10 < length (cur @ s @ [46, 32])"
      using ls Cons.prems(3) by simp
    with Cons.IH [OF rest run] show ?thesis by simp
  qed
qed

lemma semantic_loop_splits:
  assumes "\<forall>s \<in> set ss. 6 < length s"
    and "length title + 10 < length cur"
    and "ss \<noteq> []"
    and "m < length cur + sum_list (map (\<lambda>s. length s + 2) ss)"
    and "semantic_loop title m ss chunks cur = (chunks', cur')"
  shows "length chunks < length chunks'"
  using assms
proof (induction ss arbitrary: chunks cur)
  case Nil
  then show ?case by simp
next
  case (Cons s ss)
  from Cons.prems(1) have ls: "6 < length s" and rest: "\<forall>s \<in> set ss. 6 < length s" by simp_all
  show ?case
  proof (cases "length cur + length s + 2 > m")
    case True
    with Cons.prems(2,5)
    have run: "semantic_loop title m ss (chunks @ [js_trim cur]) (title @ [10, 10] @ s @ [46, 32]) = (chunks', cur')"
      by simp
    from semantic_loop_grows [OF rest run] show ?thesis by simp
  next
    case False
    with Cons.prems(5)
    have run: "semantic_loop title m ss chunks (cur @ s @ [46, 32]) = (chunks', cur')"
      by auto
    from False Cons.prems(4) have more: "m < length (cur @ s @ [46, 32]) + sum_list (map (\<lambda>s. length s + 2) ss)"
      by simp
    with False have ne: "ss \<noteq> []" by auto
    have big: "length title + 10 < length (cur @ s @ [46, 32])" using Cons.prems(2) by simp
    from Cons.IH [OF rest big ne more run] show ?thesis .
  qed
qed

lemma createSemanticChunks_two:
  assumes "\<forall>s \<in> set ss. 6 < length s"
    and "2 \<le> length ss"
    and "m < length title + 2 + sum_list (map (\<lambda>s. length s + 2) ss)"
  shows "2 \<le> length (createSemanticChunks ss title m)"
proof -
  from assms(2) obtain s rest where ss: "ss = s # rest" and l1: "1 \<le> length rest"
    by (cases ss) auto
  from l1 have ne: "rest \<noteq> []" by auto
  from assms(1) ss have ls: "6 < length s" and lr: "\<forall>s \<in> set rest. 6 < length s" by simp_all
  obtain chunks' cur' where run: "semantic_loop title m rest [] (title @ [10, 10] @ s @ [46, 32]) = (chunks', cur')"
    by (cases "semantic_loop title m rest [] (title @ [10, 10] @ s @ [46, 32])")
  have first: "semantic_loop title m ss [] (title @ [10, 10]) = (chunks', cur')"
    using run by (simp add: ss)
  have big: "length title + 10 < length (title @ [10, 10] @ s @ [46, 32])" using ls by simp
  have more: "m < length (title @ [10, 10] @ s @ [46, 32]) + sum_list (map (\<lambda>s. length s + 2) rest)"
    using assms(3) by (simp add: ss)
  from semantic_loop_splits [OF lr big ne more run] have 1: "1 \<le> length chunks'"
    by (cases chunks') simp_all
  from semantic_loop_grows [OF lr run] big have 2: "length title + 10 < length cur'" by simp
  from 1 2 first show ?thesis by (simp add: createSemanticChunks_def)
qed

lemma strategy_chunks_no_marker:
  "\<not> has_marker content \<Longrightarrow>
   strategy_chunks content title = createSemanticChunks (splitIntoSentences content) title 1200"
  by (simp add: strategy_chunks_def split_paragraphs_no_marker)

text \<open>
  C8, as the code has it. For a content without numbered paragraph markers the chunks are
  the packed sentences. When the title has at most 1197 characters, no chunk is longer than
  1200 characters plus the length of one of the sentences. There are at least two chunks
  when the content has at least two sentences (of more than 20 characters) and the title,
  two newlines and the sentences, each with its period and space, together exceed 1200
  characters.
\<close>

theorem semantic_fallback_bounds:
  assumes "\<not> has_marker content" and "length title \<le> 1197"
  shows
    "strategy_chunks content title =
       createSemanticChunks (splitIntoSentences content) title 1200 \<and>
     (\<forall>chunk \<in> set (strategy_chunks content title).
        \<exists>sentence \<in> set (splitIntoSentences content). length chunk \<le> 1200 + length sentence) \<and>
     (2 \<le> length (splitIntoSentences content) \<and>
      1200 < length title + 2 + sum_list (map (\<lambda>s. length s + 2) (splitIntoSentences content)) \<longrightarrow>
      2 \<le> length (strategy_chunks content title))"
proof (intro conjI ballI impI)
  let ?ss = "splitIntoSentences content"
  show eq: "strategy_chunks content title = createSemanticChunks ?ss title 1200"
    using assms(1) by (rule strategy_chunks_no_marker)
  have long: "\<forall>s \<in> set ?ss. 6 < length s"
    using splitIntoSentences_long [of content] by auto
  {
    fix chunk assume "chunk \<in> set (strategy_chunks content title)"
    then have c: "chunk \<in> set (createSemanticChunks ?ss title 1200)" by (simp add: eq)
    then have "?ss \<noteq> []" using createSemanticChunks_empty [of title 1200] by auto
    then obtain s0 where s0: "s0 \<in> set ?ss" by (cases ?ss) auto
    from createSemanticChunks_bound [OF long c]
    show "\<exists>sentence \<in> set ?ss. length chunk \<le> 1200 + length sentence"
    proof
      assume "length chunk \<le> 1200"
      with s0 show ?thesis by (intro bexI [of _ s0]) simp_all
    next
      assume "\<exists>s \<in> set ?ss. length chunk \<le> length title + 3 + length s"
      then obtain s where "s \<in> set ?ss" "length chunk \<le> length title + 3 + length s" by blast
      with assms(2) show ?thesis by (intro bexI [of _ s]) simp_all
    qed
  }
  assume "2 \<le> length ?ss \<and> 1200 < length title + 2 + sum_list (map (\<lambda>s. length s + 2) ?ss)"
  then show "2 \<le> length (strategy_chunks content title)"
    unfolding eq using createSemanticChunks_two [OF long] by blast
qed

lemma protect_abbrevs_no_initial:
  assumes "\<forall>c \<in> set s. c \<notin> {85, 118, 101, 105, 73, 67, 76}"
  shows "protect_abbrevs 0 legalAbbrevs s = s"
proof -
  have "replace_all (Lit x # as) replacement s = s"
    if "x \<in> {85, 118, 101, 105, 73, 67, 76}" for x as replacement
    using assms that by (intro replace_all_no_match) auto
  then show ?thesis by (simp add: legalAbbrevs_def)
qed

lemma restore_abbrevs_no_underscore:
  assumes "95 \<notin> set s"
  shows "restore_abbrevs 0 legalAbbrevs s = s"
proof -
  have "replace_all (Lit 95 # as) replacement s = s" for as replacement
    using assms by (intro replace_all_no_match) auto
  then show ?thesis by (simp add: legalAbbrevs_def placeholder_def)
qed

lemma split_sentences_period:
  "\<forall>c \<in> set xs. \<not> is_terminator c \<Longrightarrow>
   split_sentences (xs @ 46 # 32 # ys) = xs # split_sentences (dropWhile is_space ys)"
  by (induction xs) (auto simp: separator_rest_def is_terminator_def is_space_def cons_first_def)

lemma two_sentences:
  "splitIntoSentences (replicate 700 97 @ [46, 32] @ replicate 700 97) = [replicate 700 97, replicate 700 97]"
proof -
  let ?c = "replicate 700 97 @ [46, 32] @ replicate 700 (97::nat)"
  have p: "protect_abbrevs 0 legalAbbrevs ?c = ?c"
    by (rule protect_abbrevs_no_initial) auto
  have nt: "\<forall>c \<in> set (replicate 700 (97::nat)). \<not> is_terminator c"
    by (simp add: is_terminator_def)
  have sp: "split_sentences ?c = [replicate 700 97, replicate 700 97]"
    using split_sentences_period [OF nt, of "replicate 700 97"] split_sentences_no_terminator [OF nt]
    by (simp add: is_space_def)
  have r: "restore_abbrevs 0 legalAbbrevs (replicate 700 97) = replicate 700 97"
    by (rule restore_abbrevs_no_underscore) simp
  have t: "js_trim (replicate 700 97) = replicate 700 97"
    by (rule js_trim_no_space) (simp add: is_space_def)
  show ?thesis by (simp only: splitIntoSentences_def p sp) (simp add: r t)
qed

lemma two_sentences_chunks:
  "createSemanticChunks [replicate 700 97, replicate 700 97] (ascii ''T'') 1200 =
     [84 # 10 # 10 # replicate 700 97 @ [46], 84 # 10 # 10 # replicate 700 97 @ [46]]"
proof -
  have t: "js_trim (84 # 10 # 10 # replicate 700 97 @ [46, 32]) = 84 # 10 # 10 # replicate 700 97 @ [46]"
    using js_trim_snoc_space [of 32 "84 # 10 # 10 # replicate 700 97 @ [46]"]
    by (simp add: js_trim_id is_space_def)
  show ?thesis by (simp add: createSemanticChunks_def t)
qed

theorem semantic_fallback_bounds_witness:
  "\<not> has_marker (replicate 700 97 @ [46, 32] @ replicate 700 97) \<and>
   length (ascii ''T'') \<le> 1197 \<and>
   splitIntoSentences (replicate 700 97 @ [46, 32] @ replicate 700 97) =
     [replicate 700 97, replicate 700 97] \<and>
   1200 < length (ascii ''T'') + 2 +
     sum_list (map (\<lambda>s. length s + 2) [replicate 700 (97::nat), replicate 700 97]) \<and>
   strategy_chunks (replicate 700 97 @ [46, 32] @ replicate 700 97) (ascii ''T'') =
     [84 # 10 # 10 # replicate 700 97 @ [46], 84 # 10 # 10 # replicate 700 97 @ [46]] \<and>
   2 \<le> length (strategy_chunks (replicate 700 97 @ [46, 32] @ replicate 700 97) (ascii ''T'')) \<and>
   length (84 # 10 # 10 # replicate 700 97 @ [46]) \<le> 1200 + length (replicate 700 (97::nat))"
proof -
  let ?c = "replicate 700 97 @ [46, 32] @ replicate 700 (97::nat)"
  have nm: "\<not> has_marker ?c" by (rule has_marker_no_paren) simp
  have lt: "length (ascii ''T'') \<le> 1197" by simp
  have big: "1200 < length (ascii ''T'') + 2 +
     sum_list (map (\<lambda>s. length s + 2) [replicate 700 (97::nat), replicate 700 97])"
    by simp
  note t = semantic_fallback_bounds [OF nm lt]
  have ss: "splitIntoSentences ?c = [replicate 700 97, replicate 700 97]" by (rule two_sentences)
  have h: "2 \<le> length (splitIntoSentences ?c) \<and>
      1200 < length (ascii ''T'') + 2 + sum_list (map (\<lambda>s. length s + 2) (splitIntoSentences ?c))"
    unfolding ss by simp
  from t [THEN conjunct2, THEN conjunct2, rule_format, OF h]
  have two: "2 \<le> length (strategy_chunks ?c (ascii ''T''))" .
  from t [THEN conjunct1] have eq: "strategy_chunks ?c (ascii ''T'') =
     [84 # 10 # 10 # replicate 700 97 @ [46], 84 # 10 # 10 # replicate 700 97 @ [46]]"
    unfolding ss two_sentences_chunks .
  from nm lt two_sentences big eq two show ?thesis by simp
qed

lemma long_title_chunk:
  "createSemanticChunks [replicate 1300 97] (replicate 1200 84) 1200 =
     [replicate 1200 84 @ [10, 10] @ replicate 1300 97 @ [46]]"
proof -
  have t: "js_trim (replicate 1200 84 @ 10 # 10 # replicate 1300 97 @ [46, 32]) =
      replicate 1200 84 @ 10 # 10 # replicate 1300 97 @ [46]"
    using js_trim_snoc_space [of 32 "replicate 1200 84 @ 10 # 10 # replicate 1300 97 @ [46]"]
    by (simp add: js_trim_id is_space_def hd_append)
  show ?thesis by (simp add: createSemanticChunks_def t)
qed

text \<open>
  C8 as stated fails. A content of 1300 letters and no sentence boundary is longer than the
  budget and has no marker, and it gives a single chunk. Under a title of 1200 characters
  that chunk has 2503 characters, more than the budget plus the 1300 characters of its one
  sentence.
\<close>

theorem semantic_fallback_counterexample:
  "\<not> has_marker (replicate 1300 97) \<and>
   1200 < length (replicate 1300 (97::nat)) \<and>
   splitIntoSentences (replicate 1300 97) = [replicate 1300 97] \<and>
   strategy_chunks (replicate 1300 97) (ascii ''T'') = [84 # 10 # 10 # replicate 1300 97 @ [46]] \<and>
   chunkLegalText (replicate 1300 97) (ascii ''T'') = [84 # 10 # 10 # replicate 1300 97 @ [46]] \<and>
   strategy_chunks (replicate 1300 97) (replicate 1200 84) =
     [replicate 1200 84 @ [10, 10] @ replicate 1300 97 @ [46]] \<and>
   1200 + length (replicate 1300 (97::nat)) <
     length (replicate 1200 84 @ [10, 10] @ replicate 1300 (97::nat) @ [46])"
proof -
  have nm: "\<not> has_marker (replicate 1300 97)" by (rule has_marker_no_paren) simp
  have ss: "splitIntoSentences (replicate 1300 97) = [replicate 1300 97]"
    by (simp add: splitIntoSentences_plain)
  have c: "chunkLegalText (replicate 1300 97) (ascii ''T'') = [84 # 10 # 10 # replicate 1300 97 @ [46]]"
    by (rule one_long_sentence)
  then have s1: "strategy_chunks (replicate 1300 97) (ascii ''T'') = [84 # 10 # 10 # replicate 1300 97 @ [46]]"
    by (simp add: chunkLegalText_def split: if_splits)
  have s2: "strategy_chunks (replicate 1300 97) (replicate 1200 84) =
     [replicate 1200 84 @ [10, 10] @ replicate 1300 97 @ [46]]"
    by (simp only: strategy_chunks_no_marker [OF nm] ss long_title_chunk)
  from nm ss c s1 s2 show ?thesis by simp
qed

section \<open>Determinism of chunking\<close>



section \<open>Properties of similarity search\<close>



















end
